theory Spec2Isabelle
  imports Complex_Main
begin

section \<open>The drag-to-scroll gesture controller of App.tsx (useDragScroll)\<close>

text \<open>
  The controller is the body of the effect in \<open>useDragScroll\<close>: seven closure variables,
  two helpers (\<open>beginDrag\<close>, \<open>endDrag\<close>), four pointer handlers and the cleanup function.
  It is modelled by explicit state passing. One record holds the closure variables
  together with the part of the page the handlers read and write, and a log of the
  calls the handlers make on the page, in the order they make them.

  Numbers (\<open>clientY\<close>, \<open>scrollTop\<close>) are reals: pixel coordinates on which the two
  subtractions of \<open>onPointerMove\<close> are exact. An assignment to \<open>scrollTop\<close> stores the
  assigned value; the clamping the page applies to it is not part of the source.
  The pointer-capture methods may be missing or may throw. The handlers are given in
  two forms. In the first (\<open>step\<close>) the class token and the selector are taken to be
  well formed, as they are at the two call sites (\<open>drag-scroll-active\<close> and
  \<open>.search-bar\<close>), so that \<open>classList.add\<close>, \<open>classList.remove\<close> and \<open>closest\<close> return.
  In the second (\<open>step'\<close>) these three calls, which the source makes outside any \<open>try\<close>,
  throw on an empty or whitespace token and on a selector the host's parser rejects. The
  two forms are shown to agree on well-formed options.
\<close>

subsection \<open>Events, options and the host platform\<close>

text \<open>
  The target of an event, seen through the only question the source asks of it:
  \<open>target.closest(selector)\<close> is non-null exactly for the selectors in \<open>matchedBy\<close>.
\<close>

datatype target = Element (matchedBy: "string set")

record pointerEvent =
  pointerType :: string
  button :: int
  pointerId :: int
  clientY :: real
  target :: "target option"

record options =
  ignoreClosestSelector :: "string option"
  activeClassName :: "string option"

definition ignoreSelector :: "options \<Rightarrow> string option" where
  "ignoreSelector opts = ignoreClosestSelector opts"

definition activeClass :: "options \<Rightarrow> string" where
  "activeClass opts =
     (case activeClassName opts of None \<Rightarrow> ''drag-scroll-active'' | Some c \<Rightarrow> c)"

datatype dom_exception = TypeError | NotFoundError | SyntaxError | InvalidCharacterError

text \<open>
  What the element offers for pointer capture. A method that is absent makes the call
  throw a \<open>TypeError\<close> (or, for the optional call \<open>hasPointerCapture?.\<close>, yield
  undefined); a pointer id the host does not know makes it throw a \<open>NotFoundError\<close>.
\<close>

record platform =
  supportsSetPointerCapture :: bool
  supportsReleasePointerCapture :: bool
  supportsHasPointerCapture :: bool
  inactivePointers :: "int set"

datatype effect =
    SaveUserSelect string
  | DisableUserSelect
  | RestoreUserSelect string
  | ClassAdded string
  | ClassRemoved string
  | CaptureRequested int
  | ReleaseRequested int
  | ScrollTopSet real
  | DefaultPrevented
  | PropagationStopped
  | ClickListenerAdded nat
  | ClickListenerRemoved nat
  | TimeoutScheduled nat
  | ListenersRemoved

subsection \<open>State\<close>

record state =
  \<comment> \<open>closure variables of the effect\<close>
  isPointerDown :: bool
  isDragActive :: bool
  suppressClick :: bool
  pointerIdentifier :: "int option"
  startY :: real
  startScrollTop :: real
  previousUserSelect :: "string option"
  \<comment> \<open>the page: document.body.style.userSelect and the element\<close>
  userSelect :: string
  classList :: "string list"
  scrollTop :: real
  captured :: "int set"
  \<comment> \<open>the preventClick closures installed as capturing click listeners, the pending
      zero-delay timeouts (each removes the listener it names), the next fresh closure\<close>
  clickListeners :: "nat list"
  timers :: "nat list"
  nextClosure :: nat
  \<comment> \<open>whether the five pointer listeners are registered\<close>
  attached :: bool
  \<comment> \<open>the calls made on the page so far, oldest first\<close>
  effects :: "effect list"

datatype outcome = Returns state | Throws dom_exception state

fun after :: "outcome \<Rightarrow> state" where
  "after (Returns s) = s"
| "after (Throws e s) = s"

fun andThen :: "outcome \<Rightarrow> (state \<Rightarrow> outcome) \<Rightarrow> outcome" where
  "andThen (Returns s) f = f s"
| "andThen (Throws e s) f = Throws e s"

text \<open>\<open>try { ... } catch { }\<close>: the exception is dropped, the state is kept.\<close>

fun catchIgnore :: "outcome \<Rightarrow> outcome" where
  "catchIgnore (Returns s) = Returns s"
| "catchIgnore (Throws e s) = Returns s"

definition emit :: "effect list \<Rightarrow> state \<Rightarrow> state" where
  "emit es s = s\<lparr>effects := effects s @ es\<rparr>"

subsection \<open>The host calls\<close>

definition setPointerCapture :: "platform \<Rightarrow> int \<Rightarrow> state \<Rightarrow> outcome" where
  "setPointerCapture p i s =
     (let s1 = emit [CaptureRequested i] s in
      if \<not> supportsSetPointerCapture p then Throws TypeError s1
      else if i \<in> inactivePointers p then Throws NotFoundError s1
      else Returns (s1\<lparr>captured := insert i (captured s1)\<rparr>))"

definition releasePointerCapture :: "platform \<Rightarrow> int \<Rightarrow> state \<Rightarrow> outcome" where
  "releasePointerCapture p i s =
     (let s1 = emit [ReleaseRequested i] s in
      if \<not> supportsReleasePointerCapture p then Throws TypeError s1
      else if i \<in> inactivePointers p then Throws NotFoundError s1
      else Returns (s1\<lparr>captured := captured s1 - {i}\<rparr>))"

definition hasPointerCapture :: "platform \<Rightarrow> int \<Rightarrow> state \<Rightarrow> bool" where
  "hasPointerCapture p i s = (supportsHasPointerCapture p \<and> i \<in> captured s)"

definition classListAdd :: "string \<Rightarrow> state \<Rightarrow> state" where
  "classListAdd c s =
     emit [ClassAdded c]
       (s\<lparr>classList := (if c \<in> set (classList s) then classList s else classList s @ [c])\<rparr>)"

definition classListRemove :: "string \<Rightarrow> state \<Rightarrow> state" where
  "classListRemove c s = emit [ClassRemoved c] (s\<lparr>classList := removeAll c (classList s)\<rparr>)"

subsection \<open>beginDrag and endDrag\<close>

definition beginDrag :: "options \<Rightarrow> platform \<Rightarrow> int \<Rightarrow> state \<Rightarrow> outcome" where
  "beginDrag opts p i s =
     (if isDragActive s then Returns s
      else
        let s1 = s\<lparr>isDragActive := True\<rparr>;
            s2 = emit [SaveUserSelect (userSelect s1)]
                   (s1\<lparr>previousUserSelect := Some (userSelect s1)\<rparr>);
            s3 = emit [DisableUserSelect] (s2\<lparr>userSelect := ''none''\<rparr>);
            s4 = classListAdd (activeClass opts) s3
        in catchIgnore (setPointerCapture p i s4))"

definition endDrag :: "options \<Rightarrow> platform \<Rightarrow> state \<Rightarrow> outcome" where
  "endDrag opts p s =
     (if \<not> isDragActive s then Returns s
      else
        andThen
          (case pointerIdentifier s of
             None \<Rightarrow> Returns s
           | Some i \<Rightarrow>
               if hasPointerCapture p i s then catchIgnore (releasePointerCapture p i s)
               else Returns s)
          (\<lambda>s1.
             let s2 = classListRemove (activeClass opts) s1;
                 s3 = (case previousUserSelect s2 of
                         None \<Rightarrow> s2
                       | Some v \<Rightarrow>
                           emit [RestoreUserSelect v]
                             (s2\<lparr>userSelect := v, previousUserSelect := None\<rparr>))
             in Returns (s3\<lparr>isDragActive := False\<rparr>)))"

subsection \<open>The handlers\<close>

definition inIgnoreZone :: "options \<Rightarrow> pointerEvent \<Rightarrow> bool" where
  "inIgnoreZone opts ev =
     (case ignoreSelector opts of
        None \<Rightarrow> False
      | Some sel \<Rightarrow>
          sel \<noteq> [] \<and>
          (case target ev of None \<Rightarrow> False | Some t \<Rightarrow> sel \<in> matchedBy t))"

definition onPointerDown :: "options \<Rightarrow> pointerEvent \<Rightarrow> state \<Rightarrow> outcome" where
  "onPointerDown opts ev s =
     (if pointerType ev = ''touch'' then Returns s
      else if pointerType ev = ''mouse'' \<and> button ev \<noteq> 0 then Returns s
      else if inIgnoreZone opts ev then Returns s
      else Returns (s\<lparr>isPointerDown := True,
                      pointerIdentifier := Some (pointerId ev),
                      startY := clientY ev,
                      startScrollTop := scrollTop s,
                      suppressClick := False\<rparr>))"

definition onPointerMove :: "options \<Rightarrow> platform \<Rightarrow> pointerEvent \<Rightarrow> state \<Rightarrow> outcome" where
  "onPointerMove opts p ev s =
     (if \<not> isPointerDown s \<or> pointerIdentifier s \<noteq> Some (pointerId ev) then Returns s
      else
        let deltaY = clientY ev - startY s in
        andThen
          (if \<not> isDragActive s \<and> \<bar>deltaY\<bar> > 2 then beginDrag opts p (pointerId ev) s
           else Returns s)
          (\<lambda>s1.
             if isDragActive s1 then
               Returns (emit [ScrollTopSet (startScrollTop s1 - deltaY), DefaultPrevented]
                          (s1\<lparr>suppressClick := True,
                               scrollTop := startScrollTop s1 - deltaY\<rparr>))
             else Returns s1))"

text \<open>
  \<open>addEventListener("click", preventClick, true)\<close> followed by the \<open>setTimeout\<close> whose
  callback removes that same closure.
\<close>

definition installPreventClick :: "state \<Rightarrow> state" where
  "installPreventClick s =
     (let k = nextClosure s in
      emit [ClickListenerAdded k, TimeoutScheduled k]
        (s\<lparr>clickListeners := clickListeners s @ [k],
            timers := timers s @ [k],
            nextClosure := Suc k\<rparr>))"

definition finishInteraction :: "options \<Rightarrow> platform \<Rightarrow> pointerEvent \<Rightarrow> state \<Rightarrow> outcome" where
  "finishInteraction opts p ev s =
     (if \<not> isPointerDown s \<or> pointerIdentifier s \<noteq> Some (pointerId ev) then Returns s
      else
        andThen
          (if isDragActive s then
             andThen (endDrag opts p s)
               (\<lambda>s1. if suppressClick s1 then Returns (installPreventClick s1) else Returns s1)
           else Returns s)
          (\<lambda>s2. Returns (s2\<lparr>isPointerDown := False,
                              pointerIdentifier := None,
                              suppressClick := False\<rparr>)))"

definition cancelInteraction :: "options \<Rightarrow> platform \<Rightarrow> pointerEvent \<Rightarrow> state \<Rightarrow> outcome" where
  "cancelInteraction opts p ev s =
     (if \<not> isPointerDown s \<or> pointerIdentifier s \<noteq> Some (pointerId ev) then Returns s
      else
        andThen (if isDragActive s then endDrag opts p s else Returns s)
          (\<lambda>s2. Returns (s2\<lparr>isPointerDown := False,
                              pointerIdentifier := None,
                              suppressClick := False\<rparr>)))"

text \<open>The cleanup function returned by the effect.\<close>

definition teardown :: "options \<Rightarrow> platform \<Rightarrow> state \<Rightarrow> outcome" where
  "teardown opts p s =
     andThen (endDrag opts p s) (\<lambda>s1. Returns (emit [ListenersRemoved] (s1\<lparr>attached := False\<rparr>)))"

subsection \<open>The page's side: clicks and timers\<close>

text \<open>
  A click dispatched to the container runs every installed \<open>preventClick\<close>; each calls
  \<open>preventDefault\<close> and \<open>stopPropagation\<close>. The callback of the oldest pending timeout
  removes the listener it was created with.
\<close>

definition dispatchClick :: "state \<Rightarrow> state" where
  "dispatchClick s =
     emit (concat (map (\<lambda>k. [DefaultPrevented, PropagationStopped]) (clickListeners s))) s"

definition fireTimeout :: "state \<Rightarrow> state" where
  "fireTimeout s =
     (case timers s of
        [] \<Rightarrow> s
      | k # ks \<Rightarrow>
          emit [ClickListenerRemoved k]
            (s\<lparr>timers := ks, clickListeners := removeAll k (clickListeners s)\<rparr>))"

subsection \<open>The event loop\<close>

datatype event =
    PointerDown pointerEvent
  | PointerMove pointerEvent
  | PointerUp pointerEvent
  | PointerLeave pointerEvent
  | PointerCancel pointerEvent
  | Click
  | Timeout
  | Detach

fun step :: "options \<Rightarrow> platform \<Rightarrow> event \<Rightarrow> state \<Rightarrow> outcome" where
  "step opts p (PointerDown ev) s = (if attached s then onPointerDown opts ev s else Returns s)"
| "step opts p (PointerMove ev) s = (if attached s then onPointerMove opts p ev s else Returns s)"
| "step opts p (PointerUp ev) s = (if attached s then finishInteraction opts p ev s else Returns s)"
| "step opts p (PointerLeave ev) s = (if attached s then cancelInteraction opts p ev s else Returns s)"
| "step opts p (PointerCancel ev) s = (if attached s then cancelInteraction opts p ev s else Returns s)"
| "step opts p Click s = Returns (dispatchClick s)"
| "step opts p Timeout s = Returns (fireTimeout s)"
| "step opts p Detach s = (if attached s then teardown opts p s else Returns s)"

fun run :: "options \<Rightarrow> platform \<Rightarrow> event list \<Rightarrow> state \<Rightarrow> state" where
  "run opts p [] s = s"
| "run opts p (e # es) s = run opts p es (after (step opts p e s))"

text \<open>The states after each event of a sequence, in order.\<close>

fun runStates :: "options \<Rightarrow> platform \<Rightarrow> event list \<Rightarrow> state \<Rightarrow> state list" where
  "runStates opts p [] s = []"
| "runStates opts p (e # es) s =
     after (step opts p e s) # runStates opts p es (after (step opts p e s))"

text \<open>The calls on the page made between two states of one run.\<close>

definition emitted :: "state \<Rightarrow> state \<Rightarrow> effect list" where
  "emitted s s' = drop (length (effects s)) (effects s')"

subsection \<open>Phases\<close>

text \<open>
  The source has no phase variable; the three phases of the specification are read off
  the two flags.
\<close>

datatype phase = Idle | Armed | Dragging

definition phase :: "state \<Rightarrow> phase" where
  "phase s = (if isDragActive s then Dragging else if isPointerDown s then Armed else Idle)"

text \<open>The state the effect starts in, on a page with the given selection mode, classes
  and scroll offset.\<close>

definition mounted :: "string \<Rightarrow> string list \<Rightarrow> real \<Rightarrow> state" where
  "mounted v cls y =
     \<lparr>isPointerDown = False, isDragActive = False, suppressClick = False,
      pointerIdentifier = None, startY = 0, startScrollTop = 0, previousUserSelect = None,
      userSelect = v, classList = cls, scrollTop = y, captured = {},
      clickListeners = [], timers = [], nextClosure = 0, attached = True, effects = []\<rparr>"

text \<open>A pointer-down that passes the three filters of \<open>onPointerDown\<close>.\<close>

definition qualifies :: "options \<Rightarrow> pointerEvent \<Rightarrow> bool" where
  "qualifies opts ev =
     (pointerType ev \<noteq> ''touch'' \<and>
      \<not> (pointerType ev = ''mouse'' \<and> button ev \<noteq> 0) \<and>
      \<not> inIgnoreZone opts ev)"

subsection \<open>The two call sites of App, and two host platforms\<close>

text \<open>
  \<open>useDragScroll(detailsRef)\<close> passes no options; \<open>useDragScroll(listRef, ...)\<close> passes the
  selector of the search bar. A platform with the whole pointer-capture interface, and
  one with none of it.
\<close>

definition detailsOptions :: options where
  "detailsOptions = \<lparr>ignoreClosestSelector = None, activeClassName = None\<rparr>"

definition listOptions :: options where
  "listOptions = \<lparr>ignoreClosestSelector = Some ''.search-bar'', activeClassName = None\<rparr>"

definition fullPlatform :: platform where
  "fullPlatform =
     \<lparr>supportsSetPointerCapture = True, supportsReleasePointerCapture = True,
      supportsHasPointerCapture = True, inactivePointers = {}\<rparr>"

definition barePlatform :: platform where
  "barePlatform =
     \<lparr>supportsSetPointerCapture = False, supportsReleasePointerCapture = False,
      supportsHasPointerCapture = False, inactivePointers = {}\<rparr>"

text \<open>A pointer event of the given type, button, pointer id and height, with no target.\<close>

definition pointerAt :: "string \<Rightarrow> int \<Rightarrow> int \<Rightarrow> real \<Rightarrow> pointerEvent" where
  "pointerAt ty b i y =
     \<lparr>pointerType = ty, button = b, pointerId = i, clientY = y, target = None\<rparr>"

subsection \<open>Closed forms of beginDrag and endDrag\<close>

text \<open>
  The states \<open>beginDrag\<close> and \<open>endDrag\<close> return when they do not return at once, written
  as one record update each. They are shown below to be what the two functions compute, and
  serve only to keep the proofs small.
\<close>

definition captureGranted :: "platform \<Rightarrow> int \<Rightarrow> bool" where
  "captureGranted p i = (supportsSetPointerCapture p \<and> i \<notin> inactivePointers p)"

definition releaseGranted :: "platform \<Rightarrow> int \<Rightarrow> bool" where
  "releaseGranted p i = (supportsReleasePointerCapture p \<and> i \<notin> inactivePointers p)"

definition began :: "options \<Rightarrow> platform \<Rightarrow> int \<Rightarrow> state \<Rightarrow> state" where
  "began opts p i s =
     s\<lparr>isDragActive := True,
       previousUserSelect := Some (userSelect s),
       userSelect := ''none'',
       classList := (if activeClass opts \<in> set (classList s) then classList s
                     else classList s @ [activeClass opts]),
       captured := (if captureGranted p i then insert i (captured s) else captured s),
       effects := effects s @ [SaveUserSelect (userSelect s), DisableUserSelect,
                               ClassAdded (activeClass opts), CaptureRequested i]\<rparr>"

text \<open>The pointer id for which \<open>endDrag\<close> calls \<open>releasePointerCapture\<close>, if it does.\<close>

definition releaseAttempted :: "platform \<Rightarrow> state \<Rightarrow> int option" where
  "releaseAttempted p s =
     (case pointerIdentifier s of
        None \<Rightarrow> None
      | Some i \<Rightarrow> if supportsHasPointerCapture p \<and> i \<in> captured s then Some i else None)"

definition ended :: "options \<Rightarrow> platform \<Rightarrow> state \<Rightarrow> state" where
  "ended opts p s =
     s\<lparr>isDragActive := False,
       previousUserSelect := None,
       userSelect := (case previousUserSelect s of None \<Rightarrow> userSelect s | Some v \<Rightarrow> v),
       classList := removeAll (activeClass opts) (classList s),
       captured := (case releaseAttempted p s of
                      None \<Rightarrow> captured s
                    | Some i \<Rightarrow> if releaseGranted p i then captured s - {i} else captured s),
       effects := effects s @
                  (case releaseAttempted p s of None \<Rightarrow> [] | Some i \<Rightarrow> [ReleaseRequested i]) @
                  [ClassRemoved (activeClass opts)] @
                  (case previousUserSelect s of None \<Rightarrow> [] | Some v \<Rightarrow> [RestoreUserSelect v])\<rparr>"

text \<open>The three assignments that end \<open>finishInteraction\<close> and \<open>cancelInteraction\<close>.\<close>

definition pointerReleased :: "state \<Rightarrow> state" where
  "pointerReleased s = s\<lparr>isPointerDown := False, pointerIdentifier := None, suppressClick := False\<rparr>"

subsection \<open>Reachable states, and what two states share\<close>

text \<open>
  What holds of the closure variables in every state the effect can reach, on a page whose
  selection mode was \<open>v\<close> when no drag was active: a drag is active only while a pointer
  is down and the listeners are registered, and then \<open>v\<close> is the saved mode; with no drag
  active nothing is saved and the page has mode \<open>v\<close>; a pointer id is stored exactly
  while a pointer is down.
\<close>

definition consistent :: "string \<Rightarrow> state \<Rightarrow> bool" where
  "consistent v s =
     ((isDragActive s \<longrightarrow> isPointerDown s \<and> attached s \<and> previousUserSelect s = Some v) \<and>
      (\<not> isDragActive s \<longrightarrow> previousUserSelect s = None \<and> userSelect s = v) \<and>
      (isPointerDown s \<longleftrightarrow> pointerIdentifier s \<noteq> None))"

text \<open>
  Two states that agree on the closure variables and on the page, apart from the click
  listeners, the timers and the log.
\<close>

definition sameMachine :: "state \<Rightarrow> state \<Rightarrow> bool" where
  "sameMachine s t =
     (isPointerDown s = isPointerDown t \<and> isDragActive s = isDragActive t \<and>
      suppressClick s = suppressClick t \<and> pointerIdentifier s = pointerIdentifier t \<and>
      startY s = startY t \<and> startScrollTop s = startScrollTop t \<and>
      previousUserSelect s = previousUserSelect t \<and> userSelect s = userSelect t \<and>
      classList s = classList t \<and> scrollTop s = scrollTop t \<and>
      captured s = captured t \<and> attached s = attached t)"

fun clickWiring :: "effect \<Rightarrow> bool" where
  "clickWiring (ClickListenerAdded k) = True"
| "clickWiring (TimeoutScheduled k) = True"
| "clickWiring _ = False"

fun isSave :: "effect \<Rightarrow> bool" where
  "isSave (SaveUserSelect v) = True"
| "isSave _ = False"

fun isRestore :: "effect \<Rightarrow> bool" where
  "isRestore (RestoreUserSelect v) = True"
| "isRestore _ = False"

text \<open>How often a list of calls saves, and restores, the selection mode.\<close>

definition saves :: "effect list \<Rightarrow> nat" where
  "saves es = length (filter isSave es)"

definition restores :: "effect list \<Rightarrow> nat" where
  "restores es = length (filter isRestore es)"

text \<open>Whether a click dispatched in this state is cancelled by an installed interceptor.\<close>

definition clickCancelled :: "state \<Rightarrow> bool" where
  "clickCancelled s =
     (DefaultPrevented \<in> set (emitted s (dispatchClick s)) \<and>
      PropagationStopped \<in> set (emitted s (dispatchClick s)))"

subsection \<open>The handlers when the class token or the selector may be ill formed\<close>

text \<open>
  \<open>DOMTokenList.add\<close> and \<open>remove\<close> throw a \<open>SyntaxError\<close> on the empty token and an
  \<open>InvalidCharacterError\<close> on a token that contains ASCII whitespace; \<open>beginDrag\<close> calls
  \<open>add\<close> before its \<open>try\<close> and \<open>endDrag\<close> calls \<open>remove\<close> after its \<open>try\<close>. The token is
  \<open>options.activeClassName ?? "drag-scroll-active"\<close>, so an empty \<open>activeClassName\<close> is kept.
\<close>

definition asciiWhitespace :: string where
  "asciiWhitespace = [CHR 0x09, CHR 0x0A, CHR 0x0C, CHR 0x0D, CHR 0x20]"

definition classListAdd' :: "string \<Rightarrow> state \<Rightarrow> outcome" where
  "classListAdd' c s =
     (if c = [] then Throws SyntaxError s
      else if \<not> list_all (\<lambda>ch. ch \<notin> set asciiWhitespace) c then Throws InvalidCharacterError s
      else Returns (classListAdd c s))"

definition classListRemove' :: "string \<Rightarrow> state \<Rightarrow> outcome" where
  "classListRemove' c s =
     (if c = [] then Throws SyntaxError s
      else if \<not> list_all (\<lambda>ch. ch \<notin> set asciiWhitespace) c then Throws InvalidCharacterError s
      else Returns (classListRemove c s))"

definition beginDrag' :: "options \<Rightarrow> platform \<Rightarrow> int \<Rightarrow> state \<Rightarrow> outcome" where
  "beginDrag' opts p i s =
     (if isDragActive s then Returns s
      else
        let s1 = s\<lparr>isDragActive := True\<rparr>;
            s2 = emit [SaveUserSelect (userSelect s1)]
                   (s1\<lparr>previousUserSelect := Some (userSelect s1)\<rparr>);
            s3 = emit [DisableUserSelect] (s2\<lparr>userSelect := ''none''\<rparr>)
        in andThen (classListAdd' (activeClass opts) s3)
             (\<lambda>s4. catchIgnore (setPointerCapture p i s4)))"

definition endDrag' :: "options \<Rightarrow> platform \<Rightarrow> state \<Rightarrow> outcome" where
  "endDrag' opts p s =
     (if \<not> isDragActive s then Returns s
      else
        andThen
          (case pointerIdentifier s of
             None \<Rightarrow> Returns s
           | Some i \<Rightarrow>
               if hasPointerCapture p i s then catchIgnore (releasePointerCapture p i s)
               else Returns s)
          (\<lambda>s1.
             andThen (classListRemove' (activeClass opts) s1)
               (\<lambda>s2.
                  let s3 = (case previousUserSelect s2 of
                              None \<Rightarrow> s2
                            | Some v \<Rightarrow>
                                emit [RestoreUserSelect v]
                                  (s2\<lparr>userSelect := v, previousUserSelect := None\<rparr>))
                  in Returns (s3\<lparr>isDragActive := False\<rparr>))))"

text \<open>
  \<open>target.closest(selector)\<close> throws a \<open>SyntaxError\<close> when the host cannot parse the
  selector. The selectors it rejects are a parameter, \<open>malformed\<close>; the result is the
  truth value of \<open>target && target.closest(ignoreSelector)\<close>.
\<close>

definition closestIgnored :: "string set \<Rightarrow> options \<Rightarrow> pointerEvent \<Rightarrow> dom_exception + bool" where
  "closestIgnored malformed opts ev =
     (case ignoreSelector opts of
        None \<Rightarrow> Inr False
      | Some sel \<Rightarrow>
          if sel = [] then Inr False
          else
            (case target ev of
               None \<Rightarrow> Inr False
             | Some t \<Rightarrow>
                 if sel \<in> malformed then Inl SyntaxError else Inr (sel \<in> matchedBy t)))"

definition onPointerDown' :: "string set \<Rightarrow> options \<Rightarrow> pointerEvent \<Rightarrow> state \<Rightarrow> outcome" where
  "onPointerDown' malformed opts ev s =
     (if pointerType ev = ''touch'' then Returns s
      else if pointerType ev = ''mouse'' \<and> button ev \<noteq> 0 then Returns s
      else
        (case closestIgnored malformed opts ev of
           Inl e \<Rightarrow> Throws e s
         | Inr True \<Rightarrow> Returns s
         | Inr False \<Rightarrow>
             Returns (s\<lparr>isPointerDown := True,
                        pointerIdentifier := Some (pointerId ev),
                        startY := clientY ev,
                        startScrollTop := scrollTop s,
                        suppressClick := False\<rparr>)))"

definition onPointerMove' :: "options \<Rightarrow> platform \<Rightarrow> pointerEvent \<Rightarrow> state \<Rightarrow> outcome" where
  "onPointerMove' opts p ev s =
     (if \<not> isPointerDown s \<or> pointerIdentifier s \<noteq> Some (pointerId ev) then Returns s
      else
        let deltaY = clientY ev - startY s in
        andThen
          (if \<not> isDragActive s \<and> \<bar>deltaY\<bar> > 2 then beginDrag' opts p (pointerId ev) s
           else Returns s)
          (\<lambda>s1.
             if isDragActive s1 then
               Returns (emit [ScrollTopSet (startScrollTop s1 - deltaY), DefaultPrevented]
                          (s1\<lparr>suppressClick := True,
                               scrollTop := startScrollTop s1 - deltaY\<rparr>))
             else Returns s1))"

definition finishInteraction' :: "options \<Rightarrow> platform \<Rightarrow> pointerEvent \<Rightarrow> state \<Rightarrow> outcome" where
  "finishInteraction' opts p ev s =
     (if \<not> isPointerDown s \<or> pointerIdentifier s \<noteq> Some (pointerId ev) then Returns s
      else
        andThen
          (if isDragActive s then
             andThen (endDrag' opts p s)
               (\<lambda>s1. if suppressClick s1 then Returns (installPreventClick s1) else Returns s1)
           else Returns s)
          (\<lambda>s2. Returns (s2\<lparr>isPointerDown := False,
                              pointerIdentifier := None,
                              suppressClick := False\<rparr>)))"

definition cancelInteraction' :: "options \<Rightarrow> platform \<Rightarrow> pointerEvent \<Rightarrow> state \<Rightarrow> outcome" where
  "cancelInteraction' opts p ev s =
     (if \<not> isPointerDown s \<or> pointerIdentifier s \<noteq> Some (pointerId ev) then Returns s
      else
        andThen (if isDragActive s then endDrag' opts p s else Returns s)
          (\<lambda>s2. Returns (s2\<lparr>isPointerDown := False,
                              pointerIdentifier := None,
                              suppressClick := False\<rparr>)))"

definition teardown' :: "options \<Rightarrow> platform \<Rightarrow> state \<Rightarrow> outcome" where
  "teardown' opts p s =
     andThen (endDrag' opts p s)
       (\<lambda>s1. Returns (emit [ListenersRemoved] (s1\<lparr>attached := False\<rparr>)))"

fun step' :: "string set \<Rightarrow> options \<Rightarrow> platform \<Rightarrow> event \<Rightarrow> state \<Rightarrow> outcome" where
  "step' mf opts p (PointerDown ev) s =
     (if attached s then onPointerDown' mf opts ev s else Returns s)"
| "step' mf opts p (PointerMove ev) s =
     (if attached s then onPointerMove' opts p ev s else Returns s)"
| "step' mf opts p (PointerUp ev) s =
     (if attached s then finishInteraction' opts p ev s else Returns s)"
| "step' mf opts p (PointerLeave ev) s =
     (if attached s then cancelInteraction' opts p ev s else Returns s)"
| "step' mf opts p (PointerCancel ev) s =
     (if attached s then cancelInteraction' opts p ev s else Returns s)"
| "step' mf opts p Click s = Returns (dispatchClick s)"
| "step' mf opts p Timeout s = Returns (fireTimeout s)"
| "step' mf opts p Detach s = (if attached s then teardown' opts p s else Returns s)"

fun run' :: "string set \<Rightarrow> options \<Rightarrow> platform \<Rightarrow> event list \<Rightarrow> state \<Rightarrow> state" where
  "run' mf opts p [] s = s"
| "run' mf opts p (e # es) s = run' mf opts p es (after (step' mf opts p e s))"

text \<open>Whether a call threw.\<close>

fun throws :: "outcome \<Rightarrow> bool" where
  "throws (Returns s) = False"
| "throws (Throws e s) = True"

text \<open>Options on which none of the three calls throws.\<close>

definition wellFormed :: "string set \<Rightarrow> options \<Rightarrow> bool" where
  "wellFormed malformed opts =
     (activeClass opts \<noteq> [] \<and>
      list_all (\<lambda>ch. ch \<notin> set asciiWhitespace) (activeClass opts) \<and>
      (case ignoreSelector opts of None \<Rightarrow> True | Some sel \<Rightarrow> sel \<notin> malformed))"

text \<open>Options with an empty class name, and options with the selector \<open>#\<close>.\<close>

definition emptyClassOptions :: options where
  "emptyClassOptions = \<lparr>ignoreClosestSelector = None, activeClassName = Some []\<rparr>"

definition hashSelectorOptions :: options where
  "hashSelectorOptions = \<lparr>ignoreClosestSelector = Some ''#'', activeClassName = None\<rparr>"

section \<open>Properties\<close>

lemmas host_defs = emit_def setPointerCapture_def releasePointerCapture_def
  hasPointerCapture_def classListAdd_def classListRemove_def

lemmas handler_defs = beginDrag_def endDrag_def onPointerDown_def onPointerMove_def
  installPreventClick_def finishInteraction_def cancelInteraction_def teardown_def
  dispatchClick_def fireTimeout_def inIgnoreZone_def ignoreSelector_def activeClass_def

lemmas fixture_defs = detailsOptions_def listOptions_def fullPlatform_def barePlatform_def
  mounted_def pointerAt_def

lemmas strict_defs = classListAdd'_def classListRemove'_def beginDrag'_def endDrag'_def
  closestIgnored_def onPointerDown'_def onPointerMove'_def finishInteraction'_def
  cancelInteraction'_def teardown'_def asciiWhitespace_def

subsection \<open>What each handler computes\<close>

lemma emitted_append [simp]: "emitted s (s'\<lparr>effects := effects s @ xs\<rparr>) = xs"
  by (simp add: emitted_def)

lemma emitted_same [simp]: "emitted s s = []"
  by (simp add: emitted_def)

declare emitted_def [simp]

lemma beginDrag_inactive: "\<not> isDragActive s \<Longrightarrow> beginDrag opts p i s = Returns (began opts p i s)"
  by (simp add: beginDrag_def began_def captureGranted_def host_defs Let_def)

lemma beginDrag_active: "isDragActive s \<Longrightarrow> beginDrag opts p i s = Returns s"
  by (simp add: beginDrag_def)

lemma endDrag_active: "isDragActive s \<Longrightarrow> endDrag opts p s = Returns (ended opts p s)"
  by (simp add: endDrag_def ended_def releaseAttempted_def releaseGranted_def host_defs Let_def
      split: option.split)

lemma endDrag_inactive: "\<not> isDragActive s \<Longrightarrow> endDrag opts p s = Returns s"
  by (simp add: endDrag_def)

lemma began_fields [simp]:
  "isPointerDown (began opts p i s) = isPointerDown s"
  "isDragActive (began opts p i s) = True"
  "suppressClick (began opts p i s) = suppressClick s"
  "pointerIdentifier (began opts p i s) = pointerIdentifier s"
  "startY (began opts p i s) = startY s"
  "startScrollTop (began opts p i s) = startScrollTop s"
  "previousUserSelect (began opts p i s) = Some (userSelect s)"
  "userSelect (began opts p i s) = ''none''"
  "classList (began opts p i s) =
     (if activeClass opts \<in> set (classList s) then classList s
      else classList s @ [activeClass opts])"
  "scrollTop (began opts p i s) = scrollTop s"
  "captured (began opts p i s) =
     (if captureGranted p i then insert i (captured s) else captured s)"
  "clickListeners (began opts p i s) = clickListeners s"
  "timers (began opts p i s) = timers s"
  "nextClosure (began opts p i s) = nextClosure s"
  "attached (began opts p i s) = attached s"
  "effects (began opts p i s) =
     effects s @ [SaveUserSelect (userSelect s), DisableUserSelect,
                  ClassAdded (activeClass opts), CaptureRequested i]"
  by (simp_all add: began_def)

lemma ended_fields [simp]:
  "isPointerDown (ended opts p s) = isPointerDown s"
  "isDragActive (ended opts p s) = False"
  "suppressClick (ended opts p s) = suppressClick s"
  "pointerIdentifier (ended opts p s) = pointerIdentifier s"
  "startY (ended opts p s) = startY s"
  "startScrollTop (ended opts p s) = startScrollTop s"
  "previousUserSelect (ended opts p s) = None"
  "userSelect (ended opts p s) = (case previousUserSelect s of None \<Rightarrow> userSelect s | Some v \<Rightarrow> v)"
  "classList (ended opts p s) = removeAll (activeClass opts) (classList s)"
  "scrollTop (ended opts p s) = scrollTop s"
  "captured (ended opts p s) =
     (case releaseAttempted p s of
        None \<Rightarrow> captured s
      | Some i \<Rightarrow> if releaseGranted p i then captured s - {i} else captured s)"
  "clickListeners (ended opts p s) = clickListeners s"
  "timers (ended opts p s) = timers s"
  "nextClosure (ended opts p s) = nextClosure s"
  "attached (ended opts p s) = attached s"
  "effects (ended opts p s) =
     effects s @
     (case releaseAttempted p s of None \<Rightarrow> [] | Some i \<Rightarrow> [ReleaseRequested i]) @
     [ClassRemoved (activeClass opts)] @
     (case previousUserSelect s of None \<Rightarrow> [] | Some v \<Rightarrow> [RestoreUserSelect v])"
  by (simp_all add: ended_def)

lemma onPointerDown_qualifies:
  "qualifies opts ev \<Longrightarrow>
   onPointerDown opts ev s =
     Returns (s\<lparr>isPointerDown := True, pointerIdentifier := Some (pointerId ev),
                startY := clientY ev, startScrollTop := scrollTop s, suppressClick := False\<rparr>)"
  by (cases "pointerType ev = ''mouse''") (simp_all add: qualifies_def onPointerDown_def)

lemma onPointerDown_filtered: "\<not> qualifies opts ev \<Longrightarrow> onPointerDown opts ev s = Returns s"
  unfolding qualifies_def onPointerDown_def by (simp only: if_True if_False split: if_split) blast

lemma onPointerMove_foreign:
  "\<not> isPointerDown s \<or> pointerIdentifier s \<noteq> Some (pointerId ev) \<Longrightarrow>
   onPointerMove opts p ev s = Returns s"
  by (simp add: onPointerMove_def)

lemma onPointerMove_below:
  "isPointerDown s \<Longrightarrow> pointerIdentifier s = Some (pointerId ev) \<Longrightarrow> \<not> isDragActive s \<Longrightarrow>
   \<bar>clientY ev - startY s\<bar> \<le> 2 \<Longrightarrow> onPointerMove opts p ev s = Returns s"
  by (simp add: onPointerMove_def)

lemma onPointerMove_begin:
  "isPointerDown s \<Longrightarrow> pointerIdentifier s = Some (pointerId ev) \<Longrightarrow> \<not> isDragActive s \<Longrightarrow>
   \<bar>clientY ev - startY s\<bar> > 2 \<Longrightarrow>
   onPointerMove opts p ev s =
     Returns (emit [ScrollTopSet (startScrollTop s - (clientY ev - startY s)), DefaultPrevented]
               ((began opts p (pointerId ev) s)
                  \<lparr>suppressClick := True,
                   scrollTop := startScrollTop s - (clientY ev - startY s)\<rparr>))"
  by (simp add: onPointerMove_def beginDrag_inactive Let_def)

lemma onPointerMove_dragging:
  "isPointerDown s \<Longrightarrow> pointerIdentifier s = Some (pointerId ev) \<Longrightarrow> isDragActive s \<Longrightarrow>
   onPointerMove opts p ev s =
     Returns (emit [ScrollTopSet (startScrollTop s - (clientY ev - startY s)), DefaultPrevented]
               (s\<lparr>suppressClick := True,
                  scrollTop := startScrollTop s - (clientY ev - startY s)\<rparr>))"
  by (simp add: onPointerMove_def Let_def)

lemma pointerReleased_fields [simp]:
  "isPointerDown (pointerReleased s) = False"
  "isDragActive (pointerReleased s) = isDragActive s"
  "suppressClick (pointerReleased s) = False"
  "pointerIdentifier (pointerReleased s) = None"
  "startY (pointerReleased s) = startY s"
  "startScrollTop (pointerReleased s) = startScrollTop s"
  "previousUserSelect (pointerReleased s) = previousUserSelect s"
  "userSelect (pointerReleased s) = userSelect s"
  "classList (pointerReleased s) = classList s"
  "scrollTop (pointerReleased s) = scrollTop s"
  "captured (pointerReleased s) = captured s"
  "clickListeners (pointerReleased s) = clickListeners s"
  "timers (pointerReleased s) = timers s"
  "nextClosure (pointerReleased s) = nextClosure s"
  "attached (pointerReleased s) = attached s"
  "effects (pointerReleased s) = effects s"
  by (simp_all add: pointerReleased_def)

lemma installPreventClick_fields [simp]:
  "isPointerDown (installPreventClick s) = isPointerDown s"
  "isDragActive (installPreventClick s) = isDragActive s"
  "suppressClick (installPreventClick s) = suppressClick s"
  "pointerIdentifier (installPreventClick s) = pointerIdentifier s"
  "startY (installPreventClick s) = startY s"
  "startScrollTop (installPreventClick s) = startScrollTop s"
  "previousUserSelect (installPreventClick s) = previousUserSelect s"
  "userSelect (installPreventClick s) = userSelect s"
  "classList (installPreventClick s) = classList s"
  "scrollTop (installPreventClick s) = scrollTop s"
  "captured (installPreventClick s) = captured s"
  "clickListeners (installPreventClick s) = clickListeners s @ [nextClosure s]"
  "timers (installPreventClick s) = timers s @ [nextClosure s]"
  "nextClosure (installPreventClick s) = Suc (nextClosure s)"
  "attached (installPreventClick s) = attached s"
  "effects (installPreventClick s) =
     effects s @ [ClickListenerAdded (nextClosure s), TimeoutScheduled (nextClosure s)]"
  by (simp_all add: installPreventClick_def emit_def Let_def)

lemma finishInteraction_foreign:
  "\<not> isPointerDown s \<or> pointerIdentifier s \<noteq> Some (pointerId ev) \<Longrightarrow>
   finishInteraction opts p ev s = Returns s"
  by (simp add: finishInteraction_def)

lemma finishInteraction_armed:
  "isPointerDown s \<Longrightarrow> pointerIdentifier s = Some (pointerId ev) \<Longrightarrow> \<not> isDragActive s \<Longrightarrow>
   finishInteraction opts p ev s = Returns (pointerReleased s)"
  by (simp add: finishInteraction_def pointerReleased_def)

lemma finishInteraction_dragging:
  "isPointerDown s \<Longrightarrow> pointerIdentifier s = Some (pointerId ev) \<Longrightarrow> isDragActive s \<Longrightarrow>
   finishInteraction opts p ev s =
     Returns (pointerReleased
       (if suppressClick s then installPreventClick (ended opts p s) else ended opts p s))"
  by (simp add: finishInteraction_def pointerReleased_def endDrag_active)

lemma cancelInteraction_foreign:
  "\<not> isPointerDown s \<or> pointerIdentifier s \<noteq> Some (pointerId ev) \<Longrightarrow>
   cancelInteraction opts p ev s = Returns s"
  by (simp add: cancelInteraction_def)

lemma cancelInteraction_armed:
  "isPointerDown s \<Longrightarrow> pointerIdentifier s = Some (pointerId ev) \<Longrightarrow> \<not> isDragActive s \<Longrightarrow>
   cancelInteraction opts p ev s = Returns (pointerReleased s)"
  by (simp add: cancelInteraction_def pointerReleased_def)

lemma cancelInteraction_dragging:
  "isPointerDown s \<Longrightarrow> pointerIdentifier s = Some (pointerId ev) \<Longrightarrow> isDragActive s \<Longrightarrow>
   cancelInteraction opts p ev s = Returns (pointerReleased (ended opts p s))"
  by (simp add: cancelInteraction_def pointerReleased_def endDrag_active)

lemma teardown_dragging:
  "isDragActive s \<Longrightarrow>
   teardown opts p s = Returns (emit [ListenersRemoved] ((ended opts p s)\<lparr>attached := False\<rparr>))"
  by (simp add: teardown_def endDrag_active)

lemma teardown_not_dragging:
  "\<not> isDragActive s \<Longrightarrow>
   teardown opts p s = Returns (emit [ListenersRemoved] (s\<lparr>attached := False\<rparr>))"
  by (simp add: teardown_def endDrag_inactive)

text \<open>No handler lets an exception escape.\<close>

lemma onPointerMove_returns: "\<exists>s'. onPointerMove opts p ev s = Returns s'"
  by (cases "isPointerDown s \<and> pointerIdentifier s = Some (pointerId ev)";
      cases "isDragActive s"; cases "\<bar>clientY ev - startY s\<bar> > 2")
     (simp_all add: onPointerMove_foreign onPointerMove_below onPointerMove_begin
        onPointerMove_dragging)

lemma finishInteraction_returns: "\<exists>s'. finishInteraction opts p ev s = Returns s'"
  by (cases "isPointerDown s \<and> pointerIdentifier s = Some (pointerId ev)"; cases "isDragActive s")
     (simp_all add: finishInteraction_foreign finishInteraction_armed finishInteraction_dragging)

lemma cancelInteraction_returns: "\<exists>s'. cancelInteraction opts p ev s = Returns s'"
  by (cases "isPointerDown s \<and> pointerIdentifier s = Some (pointerId ev)"; cases "isDragActive s")
     (simp_all add: cancelInteraction_foreign cancelInteraction_armed cancelInteraction_dragging)

lemma teardown_returns: "\<exists>s'. teardown opts p s = Returns s'"
  by (cases "isDragActive s") (simp_all add: teardown_dragging teardown_not_dragging)

lemma onPointerDown_returns: "\<exists>s'. onPointerDown opts ev s = Returns s'"
  by (cases "qualifies opts ev") (simp_all add: onPointerDown_qualifies onPointerDown_filtered)

lemma step_returns: "\<exists>s'. step opts p e s = Returns s'"
  by (cases e)
     (simp_all add: onPointerDown_returns onPointerMove_returns finishInteraction_returns
        cancelInteraction_returns teardown_returns)

subsection \<open>Pointer-down filters\<close>

text \<open>
  C6, as the claim states it, fails: a pen whose secondary (barrel) button is pressed is
  neither a touch pointer nor a mouse pointer, so it passes both filters and arms the
  gesture.
\<close>

theorem pen_secondary_button_arms:
  "phase (mounted [] [] 0) = Idle \<and>
   button (pointerAt ''pen'' 2 1 100) \<noteq> 0 \<and>
   phase (after (step detailsOptions fullPlatform (PointerDown (pointerAt ''pen'' 2 1 100))
                   (mounted [] [] 0))) = Armed"
  by (simp add: phase_def handler_defs fixture_defs)

text \<open>
  C6, amended: a pointer-down whose pointer type is touch, or whose pointer type is mouse
  and whose button is not the primary one, or whose target lies inside the configured
  ignore zone, leaves the whole state as it was (so an Idle controller stays Idle and no
  gesture state is recorded); a pointer that is neither touch nor mouse and is outside
  the ignore zone arms the gesture whatever its button.
\<close>

theorem filtered_pointer_down_ignored:
  "(pointerType ev = ''touch'' \<or> (pointerType ev = ''mouse'' \<and> button ev \<noteq> 0) \<or>
    inIgnoreZone opts ev
      \<longrightarrow> step opts p (PointerDown ev) s = Returns s) \<and>
   (attached s \<and> pointerType ev \<noteq> ''touch'' \<and> pointerType ev \<noteq> ''mouse'' \<and>
    \<not> inIgnoreZone opts ev
      \<longrightarrow> phase (after (step opts p (PointerDown ev) s)) \<noteq> Idle \<and>
          pointerIdentifier (after (step opts p (PointerDown ev) s)) = Some (pointerId ev))"
proof (intro conjI impI)
  assume "pointerType ev = ''touch'' \<or> (pointerType ev = ''mouse'' \<and> button ev \<noteq> 0) \<or>
    inIgnoreZone opts ev"
  then have "\<not> qualifies opts ev"
    unfolding qualifies_def by blast
  then show "step opts p (PointerDown ev) s = Returns s"
    by (simp add: onPointerDown_filtered)
next
  assume a: "attached s \<and> pointerType ev \<noteq> ''touch'' \<and> pointerType ev \<noteq> ''mouse'' \<and>
    \<not> inIgnoreZone opts ev"
  then have q: "qualifies opts ev"
    unfolding qualifies_def by blast
  from a q show "phase (after (step opts p (PointerDown ev) s)) \<noteq> Idle"
    by (simp add: onPointerDown_qualifies phase_def)
  from a q show "pointerIdentifier (after (step opts p (PointerDown ev) s)) = Some (pointerId ev)"
    by (simp add: onPointerDown_qualifies)
qed

theorem filtered_pointer_down_ignored_witness:
  "step listOptions fullPlatform (PointerDown (pointerAt ''touch'' 0 1 100)) (mounted [] [] 0)
     = Returns (mounted [] [] 0) \<and>
   step listOptions fullPlatform (PointerDown (pointerAt ''mouse'' 2 1 100)) (mounted [] [] 0)
     = Returns (mounted [] [] 0) \<and>
   step listOptions fullPlatform
     (PointerDown \<lparr>pointerType = ''mouse'', button = 0, pointerId = 1, clientY = 100,
                   target = Some (Element {''.search-bar''})\<rparr>) (mounted [] [] 0)
     = Returns (mounted [] [] 0) \<and>
   phase (after (step listOptions fullPlatform (PointerDown (pointerAt ''pen'' 2 1 100))
                   (mounted [] [] 0))) \<noteq> Idle"
  using filtered_pointer_down_ignored [where ev = "pointerAt ''touch'' 0 1 100"
      and opts = listOptions and p = fullPlatform and s = "mounted [] [] 0"]
    filtered_pointer_down_ignored [where ev = "pointerAt ''mouse'' 2 1 100"
      and opts = listOptions and p = fullPlatform and s = "mounted [] [] 0"]
    filtered_pointer_down_ignored [where ev = "\<lparr>pointerType = ''mouse'', button = 0,
      pointerId = 1, clientY = 100, target = Some (Element {''.search-bar''})\<rparr>"
      and opts = listOptions and p = fullPlatform and s = "mounted [] [] 0"]
    filtered_pointer_down_ignored [where ev = "pointerAt ''pen'' 2 1 100"
      and opts = listOptions and p = fullPlatform and s = "mounted [] [] 0"]
  by (simp add: pointerAt_def inIgnoreZone_def ignoreSelector_def listOptions_def mounted_def)

subsection \<open>A second pointer-down\<close>




subsection \<open>Crossing the threshold\<close>

text \<open>
  C4: a qualifying pointer-down followed by a pointer-move of the same pointer whose
  vertical displacement exceeds 2 in absolute value puts the controller in phase
  Dragging, assigns \<open>startScrollTop - deltaY\<close> to the scroll offset (where
  \<open>startScrollTop\<close> is the offset at pointer-down), sets \<open>suppressClick\<close> and cancels the
  default action of the move event.
\<close>

theorem drag_begins_and_scrolls:
  assumes "attached s" and "qualifies opts dn" and "pointerId mv = pointerId dn"
    and "\<bar>clientY mv - clientY dn\<bar> > 2"
    and "s1 = after (step opts p (PointerDown dn) s)"
    and "s2 = after (step opts p (PointerMove mv) s1)"
  shows "step opts p (PointerMove mv) s1 = Returns s2 \<and>
         phase s2 = Dragging \<and>
         startScrollTop s2 = scrollTop s \<and>
         scrollTop s2 = scrollTop s - (clientY mv - clientY dn) \<and>
         suppressClick s2 \<and>
         ScrollTopSet (scrollTop s - (clientY mv - clientY dn)) \<in> set (emitted s1 s2) \<and>
         DefaultPrevented \<in> set (emitted s1 s2)"
proof -
  have s1: "s1 = s\<lparr>isPointerDown := True, pointerIdentifier := Some (pointerId dn),
      startY := clientY dn, startScrollTop := scrollTop s, suppressClick := False\<rparr>"
    using assms(1,2) unfolding assms(5) by (simp add: onPointerDown_qualifies)
  have f: "attached s1" "isPointerDown s1" "pointerIdentifier s1 = Some (pointerId mv)"
    "startY s1 = clientY dn" "startScrollTop s1 = scrollTop s"
    "isDragActive s1 = isDragActive s"
    using assms(1,3) by (simp_all add: s1)
  show ?thesis
  proof (cases "isDragActive s1")
    case True
    with f have "onPointerMove opts p mv s1 =
        Returns (emit [ScrollTopSet (startScrollTop s1 - (clientY mv - startY s1)), DefaultPrevented]
               (s1\<lparr>suppressClick := True,
                  scrollTop := startScrollTop s1 - (clientY mv - startY s1)\<rparr>))"
      by (simp add: onPointerMove_dragging)
    with f True assms(6) show ?thesis
      by (simp add: emit_def phase_def)
  next
    case False
    with f assms(4) have "onPointerMove opts p mv s1 =
        Returns (emit [ScrollTopSet (startScrollTop s1 - (clientY mv - startY s1)), DefaultPrevented]
               ((began opts p (pointerId mv) s1)
                  \<lparr>suppressClick := True,
                   scrollTop := startScrollTop s1 - (clientY mv - startY s1)\<rparr>))"
      by (simp add: onPointerMove_begin)
    with f False assms(6) show ?thesis
      by (simp add: emit_def phase_def)
  qed
qed

theorem drag_begins_and_scrolls_witness:
  "attached (mounted ''auto'' [] 40) \<and>
   qualifies detailsOptions (pointerAt ''mouse'' 0 1 100) \<and>
   \<bar>clientY (pointerAt ''mouse'' 0 1 90) - clientY (pointerAt ''mouse'' 0 1 100)\<bar> > 2 \<and>
   phase (run detailsOptions barePlatform
            [PointerDown (pointerAt ''mouse'' 0 1 100), PointerMove (pointerAt ''mouse'' 0 1 90)]
            (mounted ''auto'' [] 40)) = Dragging \<and>
   scrollTop (run detailsOptions barePlatform
            [PointerDown (pointerAt ''mouse'' 0 1 100), PointerMove (pointerAt ''mouse'' 0 1 90)]
            (mounted ''auto'' [] 40)) = 50"
proof -
  have a: "attached (mounted ''auto'' [] 40)"
    by (simp add: mounted_def)
  have q: "qualifies detailsOptions (pointerAt ''mouse'' 0 1 100)"
    by (simp add: qualifies_def inIgnoreZone_def ignoreSelector_def fixture_defs)
  have i: "pointerId (pointerAt ''mouse'' 0 1 90) = pointerId (pointerAt ''mouse'' 0 1 100)"
    by (simp add: pointerAt_def)
  have d: "\<bar>clientY (pointerAt ''mouse'' 0 1 90) - clientY (pointerAt ''mouse'' 0 1 100)\<bar> > 2"
    by (simp add: pointerAt_def)
  from drag_begins_and_scrolls [OF a q i d refl refl, of barePlatform]
  have "phase (run detailsOptions barePlatform
            [PointerDown (pointerAt ''mouse'' 0 1 100), PointerMove (pointerAt ''mouse'' 0 1 90)]
            (mounted ''auto'' [] 40)) = Dragging"
    and "scrollTop (run detailsOptions barePlatform
            [PointerDown (pointerAt ''mouse'' 0 1 100), PointerMove (pointerAt ''mouse'' 0 1 90)]
            (mounted ''auto'' [] 40)) = 50"
    by (simp_all add: pointerAt_def mounted_def)
  with a q d show ?thesis by blast
qed

subsection \<open>Below the threshold\<close>

lemma armed_moves_stay:
  assumes "attached s" and "isPointerDown s" and "\<not> isDragActive s"
    and "pointerIdentifier s = Some i"
    and "\<forall>m \<in> set mvs. pointerId m = i \<longrightarrow> \<bar>clientY m - startY s\<bar> \<le> 2"
  shows "set (runStates opts p (map PointerMove mvs) s) \<subseteq> {s}"
  using assms(5)
proof (induction mvs)
  case Nil
  then show ?case by simp
next
  case (Cons m mvs)
  have "onPointerMove opts p m s = Returns s"
  proof (cases "pointerId m = i")
    case True
    with Cons.prems assms(2,3,4) show ?thesis
      by (simp add: onPointerMove_below)
  next
    case False
    with assms(4) show ?thesis
      by (simp add: onPointerMove_foreign)
  qed
  with Cons assms(1) show ?case by simp
qed

lemma endDrag_no_scroll: "ScrollTopSet y \<notin> set (emitted s (after (endDrag opts p s)))"
  by (cases "isDragActive s")
     (simp_all add: endDrag_active endDrag_inactive split: option.split)

lemma scroll_written_only_dragging:
  "ScrollTopSet y \<in> set (emitted s (after (step opts p e s))) \<Longrightarrow>
   phase (after (step opts p e s)) = Dragging \<and> (\<exists>ev. e = PointerMove ev)"
proof (cases e)
  case (PointerDown ev)
  assume "ScrollTopSet y \<in> set (emitted s (after (step opts p e s)))"
  with PointerDown show ?thesis
    by (cases "qualifies opts ev")
       (simp_all add: onPointerDown_qualifies onPointerDown_filtered split: if_splits)
next
  case (PointerMove ev)
  assume "ScrollTopSet y \<in> set (emitted s (after (step opts p e s)))"
  with PointerMove show ?thesis
    by (cases "isPointerDown s \<and> pointerIdentifier s = Some (pointerId ev)";
        cases "isDragActive s"; cases "\<bar>clientY ev - startY s\<bar> > 2")
       (simp_all add: onPointerMove_foreign onPointerMove_below onPointerMove_begin
          onPointerMove_dragging emit_def phase_def split: if_splits)
next
  case (PointerUp ev)
  assume "ScrollTopSet y \<in> set (emitted s (after (step opts p e s)))"
  with PointerUp show ?thesis
    by (cases "isPointerDown s \<and> pointerIdentifier s = Some (pointerId ev)";
        cases "isDragActive s")
       (simp_all add: finishInteraction_foreign finishInteraction_armed
          finishInteraction_dragging split: if_splits option.splits)
next
  case (PointerLeave ev)
  assume "ScrollTopSet y \<in> set (emitted s (after (step opts p e s)))"
  with PointerLeave show ?thesis
    by (cases "isPointerDown s \<and> pointerIdentifier s = Some (pointerId ev)";
        cases "isDragActive s")
       (simp_all add: cancelInteraction_foreign cancelInteraction_armed
          cancelInteraction_dragging split: if_splits option.splits)
next
  case (PointerCancel ev)
  assume "ScrollTopSet y \<in> set (emitted s (after (step opts p e s)))"
  with PointerCancel show ?thesis
    by (cases "isPointerDown s \<and> pointerIdentifier s = Some (pointerId ev)";
        cases "isDragActive s")
       (simp_all add: cancelInteraction_foreign cancelInteraction_armed
          cancelInteraction_dragging split: if_splits option.splits)
next
  case Click
  assume "ScrollTopSet y \<in> set (emitted s (after (step opts p e s)))"
  with Click show ?thesis
    by (auto simp add: dispatchClick_def emit_def split: if_splits)
next
  case Timeout
  assume "ScrollTopSet y \<in> set (emitted s (after (step opts p e s)))"
  with Timeout show ?thesis
    by (simp add: fireTimeout_def emit_def split: list.splits)
next
  case Detach
  assume "ScrollTopSet y \<in> set (emitted s (after (step opts p e s)))"
  with Detach show ?thesis
    by (cases "isDragActive s")
       (simp_all add: teardown_dragging teardown_not_dragging emit_def
          split: if_splits option.splits)
qed

lemma run_in_runStates: "es \<noteq> [] \<Longrightarrow> run opts p es s \<in> set (runStates opts p es s)"
proof (induction es arbitrary: s)
  case Nil
  then show ?case by simp
next
  case (Cons e es)
  then show ?case by (cases es) simp_all
qed

text \<open>
  C5, as the claim states it, fails: \<open>onPointerDown\<close> also accepts a qualifying
  pointer-down while a drag is active, and leaves the drag flag set. A move of that
  pointer by one pixel then finds the controller in phase Dragging and assigns the scroll
  offset, here from 50 to 49.
\<close>

theorem small_move_after_take_over_scrolls:
  "qualifies detailsOptions (pointerAt ''pen'' 0 2 50) \<and>
   pointerId (pointerAt ''pen'' 0 2 51) = pointerId (pointerAt ''pen'' 0 2 50) \<and>
   \<bar>clientY (pointerAt ''pen'' 0 2 51) - clientY (pointerAt ''pen'' 0 2 50)\<bar> \<le> 2 \<and>
   attached (run detailsOptions fullPlatform
      [PointerDown (pointerAt ''mouse'' 0 1 100), PointerMove (pointerAt ''mouse'' 0 1 90)]
      (mounted ''auto'' [] 40)) \<and>
   map phase (runStates detailsOptions fullPlatform
      [PointerDown (pointerAt ''pen'' 0 2 50), PointerMove (pointerAt ''pen'' 0 2 51)]
      (run detailsOptions fullPlatform
         [PointerDown (pointerAt ''mouse'' 0 1 100), PointerMove (pointerAt ''mouse'' 0 1 90)]
         (mounted ''auto'' [] 40))) = [Dragging, Dragging] \<and>
   map scrollTop (runStates detailsOptions fullPlatform
      [PointerDown (pointerAt ''pen'' 0 2 50), PointerMove (pointerAt ''pen'' 0 2 51)]
      (run detailsOptions fullPlatform
         [PointerDown (pointerAt ''mouse'' 0 1 100), PointerMove (pointerAt ''mouse'' 0 1 90)]
         (mounted ''auto'' [] 40))) = [50, 49]"
  by (simp add: qualifies_def phase_def handler_defs host_defs fixture_defs)

text \<open>
  C5, amended: after a qualifying pointer-down received while no drag is active,
  pointer-moves whose displacement from the pointer-down is at most 2 in absolute value
  (and moves of other pointers) keep the controller Armed at every step, leave the scroll
  offset as it was and make no call on the page at all. Whatever the state, an event
  whose handling assigns the scroll offset is a pointer-move and leaves the controller in
  phase Dragging.
\<close>

theorem below_threshold_stays_armed:
  assumes "attached s" and "\<not> isDragActive s" and "qualifies opts dn"
    and "\<forall>m \<in> set mvs. pointerId m = pointerId dn \<longrightarrow> \<bar>clientY m - clientY dn\<bar> \<le> 2"
  shows "(\<forall>s' \<in> set (runStates opts p (PointerDown dn # map PointerMove mvs) s).
            phase s' = Armed \<and> scrollTop s' = scrollTop s \<and> effects s' = effects s) \<and>
         (\<forall>t e y. ScrollTopSet y \<in> set (emitted t (after (step opts p e t))) \<longrightarrow>
            phase (after (step opts p e t)) = Dragging \<and> (\<exists>ev. e = PointerMove ev))"
proof (intro conjI ballI allI impI)
  define s1 where "s1 = after (step opts p (PointerDown dn) s)"
  have s1: "s1 = s\<lparr>isPointerDown := True, pointerIdentifier := Some (pointerId dn),
      startY := clientY dn, startScrollTop := scrollTop s, suppressClick := False\<rparr>"
    using assms(1,3) by (simp add: s1_def onPointerDown_qualifies)
  have f: "attached s1" "isPointerDown s1" "\<not> isDragActive s1"
    "pointerIdentifier s1 = Some (pointerId dn)" "startY s1 = clientY dn"
    "scrollTop s1 = scrollTop s" "effects s1 = effects s"
    using assms(1,2) by (simp_all add: s1)
  from assms(4) f(5)
  have "\<forall>m \<in> set mvs. pointerId m = pointerId dn \<longrightarrow> \<bar>clientY m - startY s1\<bar> \<le> 2"
    by simp
  from armed_moves_stay [OF f(1) f(2) f(3) f(4) this]
  have sub: "set (runStates opts p (map PointerMove mvs) s1) \<subseteq> {s1}" .
  fix s'
  assume "s' \<in> set (runStates opts p (PointerDown dn # map PointerMove mvs) s)"
  then have "s' = s1 \<or> s' \<in> set (runStates opts p (map PointerMove mvs) s1)"
    by (simp add: s1_def)
  with sub have "s' = s1" by blast
  with f show "phase s' = Armed" and "scrollTop s' = scrollTop s" and "effects s' = effects s"
    by (simp_all add: phase_def)
next
  fix t e y
  assume "ScrollTopSet y \<in> set (emitted t (after (step opts p e t)))"
  then show "phase (after (step opts p e t)) = Dragging" and "\<exists>ev. e = PointerMove ev"
    using scroll_written_only_dragging by blast+
qed

theorem below_threshold_stays_armed_witness:
  "attached (mounted ''auto'' [] 40) \<and>
   \<not> isDragActive (mounted ''auto'' [] 40) \<and>
   qualifies listOptions (pointerAt ''mouse'' 0 1 100) \<and>
   phase (run listOptions fullPlatform
     [PointerDown (pointerAt ''mouse'' 0 1 100), PointerMove (pointerAt ''mouse'' 0 1 102),
      PointerMove (pointerAt ''pen'' 0 7 10), PointerMove (pointerAt ''mouse'' 0 1 98)]
     (mounted ''auto'' [] 40)) = Armed \<and>
   scrollTop (run listOptions fullPlatform
     [PointerDown (pointerAt ''mouse'' 0 1 100), PointerMove (pointerAt ''mouse'' 0 1 102),
      PointerMove (pointerAt ''pen'' 0 7 10), PointerMove (pointerAt ''mouse'' 0 1 98)]
     (mounted ''auto'' [] 40)) = 40 \<and>
   effects (run listOptions fullPlatform
     [PointerDown (pointerAt ''mouse'' 0 1 100), PointerMove (pointerAt ''mouse'' 0 1 102),
      PointerMove (pointerAt ''pen'' 0 7 10), PointerMove (pointerAt ''mouse'' 0 1 98)]
     (mounted ''auto'' [] 40)) = []"
proof -
  let ?mvs = "[pointerAt ''mouse'' 0 1 102, pointerAt ''pen'' 0 7 10, pointerAt ''mouse'' 0 1 98]"
  let ?es = "PointerDown (pointerAt ''mouse'' 0 1 100) # map PointerMove ?mvs"
  have a: "attached (mounted ''auto'' [] 40)" and n: "\<not> isDragActive (mounted ''auto'' [] 40)"
    by (simp_all add: mounted_def)
  have q: "qualifies listOptions (pointerAt ''mouse'' 0 1 100)"
    by (simp add: qualifies_def inIgnoreZone_def ignoreSelector_def fixture_defs)
  have m: "\<forall>m \<in> set ?mvs. pointerId m = pointerId (pointerAt ''mouse'' 0 1 100) \<longrightarrow>
      \<bar>clientY m - clientY (pointerAt ''mouse'' 0 1 100)\<bar> \<le> 2"
    by (simp add: pointerAt_def)
  have "run listOptions fullPlatform ?es (mounted ''auto'' [] 40)
      \<in> set (runStates listOptions fullPlatform ?es (mounted ''auto'' [] 40))"
    by (rule run_in_runStates) simp
  with below_threshold_stays_armed [OF a n q m, of fullPlatform]
  have "phase (run listOptions fullPlatform ?es (mounted ''auto'' [] 40)) = Armed"
    and "scrollTop (run listOptions fullPlatform ?es (mounted ''auto'' [] 40))
      = scrollTop (mounted ''auto'' [] 40)"
    and "effects (run listOptions fullPlatform ?es (mounted ''auto'' [] 40))
      = effects (mounted ''auto'' [] 40)"
    by blast+
  then have "phase (run listOptions fullPlatform ?es (mounted ''auto'' [] 40)) = Armed"
    and "scrollTop (run listOptions fullPlatform ?es (mounted ''auto'' [] 40)) = 40"
    and "effects (run listOptions fullPlatform ?es (mounted ''auto'' [] 40)) = []"
    by (simp_all add: mounted_def)
  with a n q show ?thesis by simp
qed

subsection \<open>Releasing the capture in endDrag\<close>

text \<open>
  C10: \<open>endDrag\<close> calls \<open>releasePointerCapture\<close> for a pointer id only when a drag is
  active, the element has a \<open>hasPointerCapture\<close> method and that method reports the stored
  pointer id as captured (and in that case it does call it). On a platform without
  \<open>hasPointerCapture\<close>, ending an active drag requests no release and leaves the set of
  captured pointers alone, and still removes the active class, restores the saved
  selection mode and clears the drag flag.
\<close>

theorem release_only_when_captured:
  "(ReleaseRequested i \<in> set (emitted s (after (endDrag opts p s))) \<longleftrightarrow>
      isDragActive s \<and> supportsHasPointerCapture p \<and> pointerIdentifier s = Some i \<and>
      i \<in> captured s) \<and>
   (isDragActive s \<and> \<not> supportsHasPointerCapture p \<longrightarrow>
      endDrag opts p s = Returns (after (endDrag opts p s)) \<and>
      (\<forall>j. ReleaseRequested j \<notin> set (emitted s (after (endDrag opts p s)))) \<and>
      captured (after (endDrag opts p s)) = captured s \<and>
      activeClass opts \<notin> set (classList (after (endDrag opts p s))) \<and>
      ClassRemoved (activeClass opts) \<in> set (emitted s (after (endDrag opts p s))) \<and>
      (\<forall>v. previousUserSelect s = Some v \<longrightarrow>
         userSelect (after (endDrag opts p s)) = v \<and>
         RestoreUserSelect v \<in> set (emitted s (after (endDrag opts p s)))) \<and>
      previousUserSelect (after (endDrag opts p s)) = None \<and>
      \<not> isDragActive (after (endDrag opts p s)))"
proof (intro conjI impI)
  show "ReleaseRequested i \<in> set (emitted s (after (endDrag opts p s))) \<longleftrightarrow>
      isDragActive s \<and> supportsHasPointerCapture p \<and> pointerIdentifier s = Some i \<and>
      i \<in> captured s"
    by (cases "isDragActive s")
       (auto simp add: endDrag_active endDrag_inactive releaseAttempted_def
          split: option.splits if_splits)
next
  assume a: "isDragActive s \<and> \<not> supportsHasPointerCapture p"
  then have e: "endDrag opts p s = Returns (ended opts p s)"
    and r: "releaseAttempted p s = None"
    by (simp_all add: endDrag_active releaseAttempted_def split: option.split)
  from e show "endDrag opts p s = Returns (after (endDrag opts p s))"
    by simp
  from e r show "\<forall>j. ReleaseRequested j \<notin> set (emitted s (after (endDrag opts p s)))"
    by (simp split: option.split)
  from e r show "captured (after (endDrag opts p s)) = captured s"
    by simp
  from e show "activeClass opts \<notin> set (classList (after (endDrag opts p s)))"
    by simp
  from e show "ClassRemoved (activeClass opts) \<in> set (emitted s (after (endDrag opts p s)))"
    by simp
  from e show "\<forall>v. previousUserSelect s = Some v \<longrightarrow>
         userSelect (after (endDrag opts p s)) = v \<and>
         RestoreUserSelect v \<in> set (emitted s (after (endDrag opts p s)))"
    by simp
  from e show "previousUserSelect (after (endDrag opts p s)) = None"
    by simp
  from e show "\<not> isDragActive (after (endDrag opts p s))"
    by simp
qed

theorem release_only_when_captured_witness:
  "isDragActive (run detailsOptions fullPlatform
      [PointerDown (pointerAt ''mouse'' 0 1 100), PointerMove (pointerAt ''mouse'' 0 1 90)]
      (mounted ''auto'' [] 40)) \<and>
   \<not> supportsHasPointerCapture barePlatform \<and>
   captured (run detailsOptions fullPlatform
      [PointerDown (pointerAt ''mouse'' 0 1 100), PointerMove (pointerAt ''mouse'' 0 1 90)]
      (mounted ''auto'' [] 40)) = {1} \<and>
   captured (after (endDrag detailsOptions barePlatform (run detailsOptions fullPlatform
      [PointerDown (pointerAt ''mouse'' 0 1 100), PointerMove (pointerAt ''mouse'' 0 1 90)]
      (mounted ''auto'' [] 40)))) = {1} \<and>
   userSelect (after (endDrag detailsOptions barePlatform (run detailsOptions fullPlatform
      [PointerDown (pointerAt ''mouse'' 0 1 100), PointerMove (pointerAt ''mouse'' 0 1 90)]
      (mounted ''auto'' [] 40)))) = ''auto'' \<and>
   activeClass detailsOptions \<notin> set (classList (after (endDrag detailsOptions barePlatform
      (run detailsOptions fullPlatform
      [PointerDown (pointerAt ''mouse'' 0 1 100), PointerMove (pointerAt ''mouse'' 0 1 90)]
      (mounted ''auto'' [] 40))))) \<and>
   ReleaseRequested 1 \<in> set (emitted
      (run detailsOptions fullPlatform
      [PointerDown (pointerAt ''mouse'' 0 1 100), PointerMove (pointerAt ''mouse'' 0 1 90)]
      (mounted ''auto'' [] 40))
      (after (endDrag detailsOptions fullPlatform (run detailsOptions fullPlatform
      [PointerDown (pointerAt ''mouse'' 0 1 100), PointerMove (pointerAt ''mouse'' 0 1 90)]
      (mounted ''auto'' [] 40)))))"
proof -
  let ?s = "run detailsOptions fullPlatform
      [PointerDown (pointerAt ''mouse'' 0 1 100), PointerMove (pointerAt ''mouse'' 0 1 90)]
      (mounted ''auto'' [] 40)"
  have d: "isDragActive ?s" and c: "captured ?s = {1}"
    and i: "pointerIdentifier ?s = Some 1" and v: "previousUserSelect ?s = Some ''auto''"
    by (simp_all add: handler_defs host_defs fixture_defs)
  have b: "\<not> supportsHasPointerCapture barePlatform"
    and f: "supportsHasPointerCapture fullPlatform"
    by (simp_all add: fixture_defs)
  from release_only_when_captured [of _ ?s detailsOptions barePlatform] d b c v
  have 1: "captured (after (endDrag detailsOptions barePlatform ?s)) = {1}"
    and 2: "userSelect (after (endDrag detailsOptions barePlatform ?s)) = ''auto''"
    and 3: "activeClass detailsOptions
      \<notin> set (classList (after (endDrag detailsOptions barePlatform ?s)))"
    by blast+
  from release_only_when_captured [of 1 ?s detailsOptions fullPlatform] d f c i
  have 4: "ReleaseRequested 1
      \<in> set (emitted ?s (after (endDrag detailsOptions fullPlatform ?s)))"
    by blast
  from d b c 1 2 3 4 show ?thesis by blast
qed

subsection \<open>Exceptions\<close>

text \<open>
  With a well-formed token and selector every event is handled without an exception, and
  a pointer-capture call that fails is absorbed: where \<open>setPointerCapture\<close> is missing or
  rejects the pointer, the drag still begins with nothing captured and each further move
  of the pointer sets the scroll offset from its displacement; where releasing fails, a
  pointer-up of the dragging pointer still returns the controller to Idle with the
  selection mode restored.
\<close>

lemma capture_failures_absorbed:
  "(\<exists>s'. step opts p e s = Returns s') \<and>
   (attached s \<and> \<not> isDragActive s \<and> qualifies opts dn \<and>
    pointerId m1 = pointerId dn \<and> pointerId m2 = pointerId dn \<and>
    \<bar>clientY m1 - clientY dn\<bar> > 2 \<and> \<not> captureGranted p (pointerId dn) \<longrightarrow>
      phase (run opts p [PointerDown dn, PointerMove m1] s) = Dragging \<and>
      captured (run opts p [PointerDown dn, PointerMove m1] s) = captured s \<and>
      scrollTop (run opts p [PointerDown dn, PointerMove m1, PointerMove m2] s) =
        scrollTop s - (clientY m2 - clientY dn)) \<and>
   (attached s \<and> isPointerDown s \<and> isDragActive s \<and> pointerIdentifier s = Some (pointerId up) \<and>
    previousUserSelect s = Some v \<longrightarrow>
      phase (after (step opts p (PointerUp up) s)) = Idle \<and>
      userSelect (after (step opts p (PointerUp up) s)) = v)"
proof (intro conjI impI)
  show "\<exists>s'. step opts p e s = Returns s'"
    by (rule step_returns)
next
  assume a: "attached s \<and> \<not> isDragActive s \<and> qualifies opts dn \<and>
    pointerId m1 = pointerId dn \<and> pointerId m2 = pointerId dn \<and>
    \<bar>clientY m1 - clientY dn\<bar> > 2 \<and> \<not> captureGranted p (pointerId dn)"
  define s1 where "s1 = after (step opts p (PointerDown dn) s)"
  define s2 where "s2 = after (step opts p (PointerMove m1) s1)"
  define s3 where "s3 = after (step opts p (PointerMove m2) s2)"
  have s1: "s1 = s\<lparr>isPointerDown := True, pointerIdentifier := Some (pointerId dn),
      startY := clientY dn, startScrollTop := scrollTop s, suppressClick := False\<rparr>"
    using a by (simp add: s1_def onPointerDown_qualifies)
  have f1: "attached s1" "isPointerDown s1" "\<not> isDragActive s1"
    "pointerIdentifier s1 = Some (pointerId m1)" "startY s1 = clientY dn"
    "startScrollTop s1 = scrollTop s" "captured s1 = captured s"
    using a by (simp_all add: s1)
  have s2: "s2 = emit [ScrollTopSet (startScrollTop s1 - (clientY m1 - startY s1)), DefaultPrevented]
               ((began opts p (pointerId m1) s1)
                  \<lparr>suppressClick := True,
                   scrollTop := startScrollTop s1 - (clientY m1 - startY s1)\<rparr>)"
    using f1 a by (simp add: s2_def onPointerMove_begin)
  have f2: "attached s2" "isPointerDown s2" "isDragActive s2"
    "pointerIdentifier s2 = Some (pointerId m2)" "startY s2 = clientY dn"
    "startScrollTop s2 = scrollTop s" "captured s2 = captured s"
    using f1 a by (simp_all add: s2 emit_def)
  have s3: "s3 = emit [ScrollTopSet (startScrollTop s2 - (clientY m2 - startY s2)), DefaultPrevented]
               (s2\<lparr>suppressClick := True,
                  scrollTop := startScrollTop s2 - (clientY m2 - startY s2)\<rparr>)"
    using f2 by (simp add: s3_def onPointerMove_dragging)
  have r2: "run opts p [PointerDown dn, PointerMove m1] s = s2"
    and r3: "run opts p [PointerDown dn, PointerMove m1, PointerMove m2] s = s3"
    by (simp_all add: s1_def s2_def s3_def)
  from f2 show "phase (run opts p [PointerDown dn, PointerMove m1] s) = Dragging"
    unfolding r2 by (simp add: phase_def)
  from f2 show "captured (run opts p [PointerDown dn, PointerMove m1] s) = captured s"
    unfolding r2 by simp
  from f2 show "scrollTop (run opts p [PointerDown dn, PointerMove m1, PointerMove m2] s) =
        scrollTop s - (clientY m2 - clientY dn)"
    unfolding r3 by (simp add: s3 emit_def)
next
  assume a: "attached s \<and> isPointerDown s \<and> isDragActive s \<and>
    pointerIdentifier s = Some (pointerId up) \<and> previousUserSelect s = Some v"
  then have e: "step opts p (PointerUp up) s = Returns (pointerReleased
       (if suppressClick s then installPreventClick (ended opts p s) else ended opts p s))"
    by (simp add: finishInteraction_dragging)
  from a show "phase (after (step opts p (PointerUp up) s)) = Idle"
    unfolding e by (simp add: phase_def)
  from a show "userSelect (after (step opts p (PointerUp up) s)) = v"
    unfolding e by simp
qed

text \<open>The two forms of the handlers agree on well-formed options.\<close>

lemma beginDrag'_eq: "wellFormed mf opts \<Longrightarrow> beginDrag' opts p i s = beginDrag opts p i s"
  by (simp add: wellFormed_def beginDrag'_def beginDrag_def classListAdd'_def Let_def)

lemma endDrag'_eq: "wellFormed mf opts \<Longrightarrow> endDrag' opts p s = endDrag opts p s"
  by (simp add: wellFormed_def endDrag'_def endDrag_def classListRemove'_def Let_def)

lemma onPointerDown'_eq:
  assumes "wellFormed mf opts"
  shows "onPointerDown' mf opts ev s = onPointerDown opts ev s"
proof -
  have "closestIgnored mf opts ev = Inr (inIgnoreZone opts ev)"
    using assms
    by (auto simp add: wellFormed_def closestIgnored_def inIgnoreZone_def
        split: option.splits)
  then show ?thesis
    by (simp add: onPointerDown'_def onPointerDown_def)
qed

lemma onPointerMove'_eq:
  assumes "wellFormed mf opts"
  shows "onPointerMove' opts p ev s = onPointerMove opts p ev s"
  unfolding onPointerMove'_def onPointerMove_def beginDrag'_eq [OF assms] by (rule refl)

lemma finishInteraction'_eq:
  assumes "wellFormed mf opts"
  shows "finishInteraction' opts p ev s = finishInteraction opts p ev s"
  unfolding finishInteraction'_def finishInteraction_def endDrag'_eq [OF assms] by (rule refl)

lemma cancelInteraction'_eq:
  assumes "wellFormed mf opts"
  shows "cancelInteraction' opts p ev s = cancelInteraction opts p ev s"
  unfolding cancelInteraction'_def cancelInteraction_def endDrag'_eq [OF assms] by (rule refl)

lemma teardown'_eq:
  assumes "wellFormed mf opts"
  shows "teardown' opts p s = teardown opts p s"
  unfolding teardown'_def teardown_def endDrag'_eq [OF assms] by (rule refl)

lemma step'_eq:
  assumes "wellFormed mf opts"
  shows "step' mf opts p e s = step opts p e s"
  by (cases e)
     (simp_all only: step'.simps step.simps onPointerDown'_eq [OF assms]
        onPointerMove'_eq [OF assms] finishInteraction'_eq [OF assms]
        cancelInteraction'_eq [OF assms] teardown'_eq [OF assms])

lemma run'_eq: "wellFormed mf opts \<Longrightarrow> run' mf opts p es s = run opts p es s"
  by (induction es arbitrary: s) (simp_all add: step'_eq)

lemma wellFormed_call_sites: "wellFormed {} detailsOptions" "wellFormed {} listOptions"
  by (simp_all add: wellFormed_def activeClass_def ignoreSelector_def asciiWhitespace_def
      detailsOptions_def listOptions_def)

text \<open>
  C9, as the claim states it, fails: only the two pointer-capture calls are inside a
  \<open>try\<close>. With an empty \<open>activeClassName\<close> the move that crosses the threshold throws out
  of \<open>onPointerMove\<close> (from \<open>classList.add\<close>, after the selection mode has been set to
  \<open>none\<close>), and the pointer-up that follows throws out of \<open>finishInteraction\<close> (from
  \<open>classList.remove\<close>) and leaves the selection mode at \<open>none\<close>. With a selector the host
  rejects, a pointer-down on an element throws out of \<open>onPointerDown\<close>.
\<close>

theorem ill_formed_options_throw:
  "throws (step' {} emptyClassOptions fullPlatform (PointerMove (pointerAt ''mouse'' 0 1 90))
     (run' {} emptyClassOptions fullPlatform [PointerDown (pointerAt ''mouse'' 0 1 100)]
        (mounted ''auto'' [] 40))) \<and>
   userSelect (run' {} emptyClassOptions fullPlatform
     [PointerDown (pointerAt ''mouse'' 0 1 100), PointerMove (pointerAt ''mouse'' 0 1 90)]
     (mounted ''auto'' [] 40)) = ''none'' \<and>
   throws (step' {} emptyClassOptions fullPlatform (PointerUp (pointerAt ''mouse'' 0 1 90))
     (run' {} emptyClassOptions fullPlatform
        [PointerDown (pointerAt ''mouse'' 0 1 100), PointerMove (pointerAt ''mouse'' 0 1 90)]
        (mounted ''auto'' [] 40))) \<and>
   userSelect (run' {} emptyClassOptions fullPlatform
     [PointerDown (pointerAt ''mouse'' 0 1 100), PointerMove (pointerAt ''mouse'' 0 1 90),
      PointerUp (pointerAt ''mouse'' 0 1 90)]
     (mounted ''auto'' [] 40)) = ''none'' \<and>
   throws (step' {''#''} hashSelectorOptions fullPlatform
     (PointerDown \<lparr>pointerType = ''mouse'', button = 0, pointerId = 1, clientY = 100,
                   target = Some (Element {})\<rparr>)
     (mounted ''auto'' [] 40))"
  by (simp add: strict_defs handler_defs host_defs fixture_defs emptyClassOptions_def
      hashSelectorOptions_def)

text \<open>
  C9, amended: when the class token is non-empty and free of whitespace and the selector
  is one the host can parse, every event is handled without an exception reaching the
  host, whatever the platform. In particular, where \<open>setPointerCapture\<close> is missing or
  rejects the pointer, the drag still begins with nothing captured and each further move
  of the pointer sets the scroll offset from its displacement; and where releasing fails,
  a pointer-up of the dragging pointer still returns the controller to Idle with the
  selection mode restored.
\<close>

theorem well_formed_options_never_throw:
  assumes "wellFormed mf opts"
  shows "(\<exists>s'. step' mf opts p e s = Returns s') \<and>
   (attached s \<and> \<not> isDragActive s \<and> qualifies opts dn \<and>
    pointerId m1 = pointerId dn \<and> pointerId m2 = pointerId dn \<and>
    \<bar>clientY m1 - clientY dn\<bar> > 2 \<and> \<not> captureGranted p (pointerId dn) \<longrightarrow>
      phase (run' mf opts p [PointerDown dn, PointerMove m1] s) = Dragging \<and>
      captured (run' mf opts p [PointerDown dn, PointerMove m1] s) = captured s \<and>
      scrollTop (run' mf opts p [PointerDown dn, PointerMove m1, PointerMove m2] s) =
        scrollTop s - (clientY m2 - clientY dn)) \<and>
   (attached s \<and> isPointerDown s \<and> isDragActive s \<and> pointerIdentifier s = Some (pointerId up) \<and>
    previousUserSelect s = Some v \<longrightarrow>
      phase (after (step' mf opts p (PointerUp up) s)) = Idle \<and>
      userSelect (after (step' mf opts p (PointerUp up) s)) = v)"
  unfolding step'_eq [OF assms] run'_eq [OF assms] by (rule capture_failures_absorbed)

theorem well_formed_options_never_throw_witness:
  "wellFormed {} detailsOptions \<and>
   attached (mounted ''auto'' [] 40) \<and>
   \<not> captureGranted barePlatform (pointerId (pointerAt ''mouse'' 0 1 100)) \<and>
   \<not> throws (step' {} detailsOptions barePlatform (PointerMove (pointerAt ''mouse'' 0 1 90))
     (run' {} detailsOptions barePlatform [PointerDown (pointerAt ''mouse'' 0 1 100)]
        (mounted ''auto'' [] 40))) \<and>
   phase (run' {} detailsOptions barePlatform
     [PointerDown (pointerAt ''mouse'' 0 1 100), PointerMove (pointerAt ''mouse'' 0 1 90)]
     (mounted ''auto'' [] 40)) = Dragging \<and>
   captured (run' {} detailsOptions barePlatform
     [PointerDown (pointerAt ''mouse'' 0 1 100), PointerMove (pointerAt ''mouse'' 0 1 90)]
     (mounted ''auto'' [] 40)) = {} \<and>
   scrollTop (run' {} detailsOptions barePlatform
     [PointerDown (pointerAt ''mouse'' 0 1 100), PointerMove (pointerAt ''mouse'' 0 1 90),
      PointerMove (pointerAt ''mouse'' 0 1 80)]
     (mounted ''auto'' [] 40)) = 60 \<and>
   phase (after (step' {} detailsOptions (fullPlatform\<lparr>supportsReleasePointerCapture := False\<rparr>)
     (PointerUp (pointerAt ''mouse'' 0 1 90))
     (run' {} detailsOptions fullPlatform
        [PointerDown (pointerAt ''mouse'' 0 1 100), PointerMove (pointerAt ''mouse'' 0 1 90)]
        (mounted ''auto'' [] 40)))) = Idle \<and>
   userSelect (after (step' {} detailsOptions (fullPlatform\<lparr>supportsReleasePointerCapture := False\<rparr>)
     (PointerUp (pointerAt ''mouse'' 0 1 90))
     (run' {} detailsOptions fullPlatform
        [PointerDown (pointerAt ''mouse'' 0 1 100), PointerMove (pointerAt ''mouse'' 0 1 90)]
        (mounted ''auto'' [] 40)))) = ''auto''"
proof -
  let ?m = "mounted ''auto'' [] 40"
  let ?dn = "pointerAt ''mouse'' 0 1 100"
  let ?m1 = "pointerAt ''mouse'' 0 1 90"
  let ?m2 = "pointerAt ''mouse'' 0 1 80"
  let ?s = "run' {} detailsOptions fullPlatform [PointerDown ?dn, PointerMove ?m1] ?m"
  let ?q = "fullPlatform\<lparr>supportsReleasePointerCapture := False\<rparr>"
  have w: "wellFormed {} detailsOptions"
    by (rule wellFormed_call_sites)
  have a: "attached ?m" and n: "\<not> isDragActive ?m" and c0: "captured ?m = {}"
    and y0: "scrollTop ?m = 40"
    by (simp_all add: mounted_def)
  have q: "qualifies detailsOptions ?dn"
    by (simp add: qualifies_def inIgnoreZone_def ignoreSelector_def fixture_defs)
  have i: "pointerId ?m1 = pointerId ?dn" "pointerId ?m2 = pointerId ?dn"
    and d: "\<bar>clientY ?m1 - clientY ?dn\<bar> > 2" and y: "clientY ?m2 - clientY ?dn = - 20"
    by (simp_all add: pointerAt_def)
  have g: "\<not> captureGranted barePlatform (pointerId ?dn)"
    by (simp add: captureGranted_def barePlatform_def)
  from well_formed_options_never_throw [OF w, where p = barePlatform
      and e = "PointerMove ?m1"
      and s = "run' {} detailsOptions barePlatform [PointerDown ?dn] ?m"]
  obtain t where "step' {} detailsOptions barePlatform (PointerMove ?m1)
      (run' {} detailsOptions barePlatform [PointerDown ?dn] ?m) = Returns t"
    by blast
  then have 0: "\<not> throws (step' {} detailsOptions barePlatform (PointerMove ?m1)
      (run' {} detailsOptions barePlatform [PointerDown ?dn] ?m))"
    by (simp only: throws.simps not_False_eq_True)
  from well_formed_options_never_throw [OF w, where s = ?m and dn = ?dn and ?m1.0 = ?m1
      and ?m2.0 = ?m2 and p = barePlatform] a n q i d g
  have 1: "phase (run' {} detailsOptions barePlatform [PointerDown ?dn, PointerMove ?m1] ?m)
        = Dragging"
    and 2: "captured (run' {} detailsOptions barePlatform [PointerDown ?dn, PointerMove ?m1] ?m)
        = captured ?m"
    and 3: "scrollTop (run' {} detailsOptions barePlatform
        [PointerDown ?dn, PointerMove ?m1, PointerMove ?m2] ?m)
        = scrollTop ?m - (clientY ?m2 - clientY ?dn)"
    by blast+
  have u: "attached ?s" "isPointerDown ?s" "isDragActive ?s"
    "pointerIdentifier ?s = Some (pointerId ?m1)" "previousUserSelect ?s = Some ''auto''"
    unfolding run'_eq [OF w] by (simp_all add: handler_defs host_defs fixture_defs)
  from well_formed_options_never_throw [OF w, where s = ?s and up = ?m1 and p = ?q
      and v = "''auto''"] u
  have 4: "phase (after (step' {} detailsOptions ?q (PointerUp ?m1) ?s)) = Idle"
    and 5: "userSelect (after (step' {} detailsOptions ?q (PointerUp ?m1) ?s)) = ''auto''"
    by blast+
  from 2 c0 have c2: "captured (run' {} detailsOptions barePlatform
      [PointerDown ?dn, PointerMove ?m1] ?m) = {}"
    by simp
  from 3 y0 y have c3: "scrollTop (run' {} detailsOptions barePlatform
        [PointerDown ?dn, PointerMove ?m1, PointerMove ?m2] ?m) = 60"
    by simp
  from w a g 0 1 c2 c3 4 5 show ?thesis by blast
qed

lemma cancel_step:
  "step opts p (PointerCancel ev) s =
     Returns (if attached s \<and> isPointerDown s \<and> pointerIdentifier s = Some (pointerId ev)
              then pointerReleased (if isDragActive s then ended opts p s else s) else s)"
  by (cases "isPointerDown s"; cases "pointerIdentifier s = Some (pointerId ev)";
      cases "isDragActive s")
     (simp_all add: cancelInteraction_foreign cancelInteraction_armed cancelInteraction_dragging)

lemma up_step:
  "step opts p (PointerUp ev) s =
     Returns (if attached s \<and> isPointerDown s \<and> pointerIdentifier s = Some (pointerId ev)
              then pointerReleased
                (if isDragActive s
                 then (if suppressClick s then installPreventClick (ended opts p s)
                       else ended opts p s)
                 else s)
              else s)"
  by (cases "isPointerDown s"; cases "pointerIdentifier s = Some (pointerId ev)";
      cases "isDragActive s")
     (simp_all add: finishInteraction_foreign finishInteraction_armed finishInteraction_dragging)

lemma clickCancelled_iff: "clickCancelled s \<longleftrightarrow> clickListeners s \<noteq> []"
  by (cases "clickListeners s") (simp_all add: clickCancelled_def dispatchClick_def emit_def)

lemma cancel_same_machine:
  "sameMachine (after (step opts p (PointerCancel ev) s)) (after (step opts p (PointerUp ev) s))"
  unfolding cancel_step up_step by (simp add: sameMachine_def)

lemma cancel_emitted:
  "emitted s (after (step opts p (PointerCancel ev) s)) =
     filter (\<lambda>x. \<not> clickWiring x) (emitted s (after (step opts p (PointerUp ev) s)))"
  unfolding cancel_step up_step by (simp split: option.split)

lemma cancel_wiring:
  "clickListeners (after (step opts p (PointerCancel ev) s)) = clickListeners s"
  "timers (after (step opts p (PointerCancel ev) s)) = timers s"
  unfolding cancel_step by simp_all

lemma cancel_active:
  assumes "attached s \<and> isPointerDown s \<and> pointerIdentifier s = Some (pointerId ev)"
  shows "phase (after (step opts p (PointerCancel ev) s)) = Idle"
    and "pointerIdentifier (after (step opts p (PointerCancel ev) s)) = None"
    and "\<not> suppressClick (after (step opts p (PointerCancel ev) s))"
    and "isDragActive s \<longrightarrow>
         activeClass opts \<notin> set (classList (after (step opts p (PointerCancel ev) s))) \<and>
         previousUserSelect (after (step opts p (PointerCancel ev) s)) = None \<and>
         (\<forall>v. previousUserSelect s = Some v \<longrightarrow>
            userSelect (after (step opts p (PointerCancel ev) s)) = v)"
  using assms unfolding cancel_step by (simp_all add: phase_def)

subsection \<open>Leave and cancel\<close>

text \<open>
  C7: pointer-leave and pointer-cancel run the same handler. Handling either leaves the
  closure variables and the page exactly as handling a pointer-up for the same event
  would (end-drag cleanup if a drag is active, then pointer flag, pointer id and
  \<open>suppressClick\<close> reset), makes the same calls on the page apart from installing the click
  interceptor and its timeout, and leaves the click listeners and timers as they were:
  if no interceptor was installed before, a click after the cancel is not cancelled.
\<close>

theorem cancel_is_up_without_veto:
  "step opts p (PointerLeave ev) s = step opts p (PointerCancel ev) s \<and>
   sameMachine (after (step opts p (PointerCancel ev) s)) (after (step opts p (PointerUp ev) s)) \<and>
   emitted s (after (step opts p (PointerCancel ev) s)) =
     filter (\<lambda>x. \<not> clickWiring x) (emitted s (after (step opts p (PointerUp ev) s))) \<and>
   clickListeners (after (step opts p (PointerCancel ev) s)) = clickListeners s \<and>
   timers (after (step opts p (PointerCancel ev) s)) = timers s \<and>
   (clickListeners s = [] \<longrightarrow> \<not> clickCancelled (after (step opts p (PointerCancel ev) s))) \<and>
   (attached s \<and> isPointerDown s \<and> pointerIdentifier s = Some (pointerId ev) \<longrightarrow>
      phase (after (step opts p (PointerCancel ev) s)) = Idle \<and>
      pointerIdentifier (after (step opts p (PointerCancel ev) s)) = None \<and>
      \<not> suppressClick (after (step opts p (PointerCancel ev) s)) \<and>
      (isDragActive s \<longrightarrow>
         activeClass opts \<notin> set (classList (after (step opts p (PointerCancel ev) s))) \<and>
         previousUserSelect (after (step opts p (PointerCancel ev) s)) = None \<and>
         (\<forall>v. previousUserSelect s = Some v \<longrightarrow>
            userSelect (after (step opts p (PointerCancel ev) s)) = v)))"
proof (intro conjI impI)
  show "step opts p (PointerLeave ev) s = step opts p (PointerCancel ev) s"
    by simp
  show "sameMachine (after (step opts p (PointerCancel ev) s))
      (after (step opts p (PointerUp ev) s))"
    by (rule cancel_same_machine)
  show "emitted s (after (step opts p (PointerCancel ev) s)) =
     filter (\<lambda>x. \<not> clickWiring x) (emitted s (after (step opts p (PointerUp ev) s)))"
    by (rule cancel_emitted)
  show "clickListeners (after (step opts p (PointerCancel ev) s)) = clickListeners s"
    and "timers (after (step opts p (PointerCancel ev) s)) = timers s"
    by (rule cancel_wiring)+
  show "\<not> clickCancelled (after (step opts p (PointerCancel ev) s))" if "clickListeners s = []"
    using that by (simp only: clickCancelled_iff cancel_wiring) simp
next
  assume a: "attached s \<and> isPointerDown s \<and> pointerIdentifier s = Some (pointerId ev)"
  from cancel_active [OF a]
  show "phase (after (step opts p (PointerCancel ev) s)) = Idle"
    and "pointerIdentifier (after (step opts p (PointerCancel ev) s)) = None"
    and "\<not> suppressClick (after (step opts p (PointerCancel ev) s))"
    by blast+
  assume d: "isDragActive s"
  from cancel_active(4) [OF a] d
  show "activeClass opts \<notin> set (classList (after (step opts p (PointerCancel ev) s)))"
    and "previousUserSelect (after (step opts p (PointerCancel ev) s)) = None"
    and "\<forall>v. previousUserSelect s = Some v \<longrightarrow>
            userSelect (after (step opts p (PointerCancel ev) s)) = v"
    by blast+
qed

theorem cancel_is_up_without_veto_witness:
  "attached (run detailsOptions fullPlatform
      [PointerDown (pointerAt ''mouse'' 0 1 100), PointerMove (pointerAt ''mouse'' 0 1 90)]
      (mounted ''auto'' [] 40)) \<and>
   isDragActive (run detailsOptions fullPlatform
      [PointerDown (pointerAt ''mouse'' 0 1 100), PointerMove (pointerAt ''mouse'' 0 1 90)]
      (mounted ''auto'' [] 40)) \<and>
   phase (run detailsOptions fullPlatform
      [PointerDown (pointerAt ''mouse'' 0 1 100), PointerMove (pointerAt ''mouse'' 0 1 90),
       PointerCancel (pointerAt ''mouse'' 0 1 90)]
      (mounted ''auto'' [] 40)) = Idle \<and>
   userSelect (run detailsOptions fullPlatform
      [PointerDown (pointerAt ''mouse'' 0 1 100), PointerMove (pointerAt ''mouse'' 0 1 90),
       PointerCancel (pointerAt ''mouse'' 0 1 90)]
      (mounted ''auto'' [] 40)) = ''auto'' \<and>
   \<not> clickCancelled (run detailsOptions fullPlatform
      [PointerDown (pointerAt ''mouse'' 0 1 100), PointerMove (pointerAt ''mouse'' 0 1 90),
       PointerCancel (pointerAt ''mouse'' 0 1 90)]
      (mounted ''auto'' [] 40)) \<and>
   clickCancelled (run detailsOptions fullPlatform
      [PointerDown (pointerAt ''mouse'' 0 1 100), PointerMove (pointerAt ''mouse'' 0 1 90),
       PointerUp (pointerAt ''mouse'' 0 1 90)]
      (mounted ''auto'' [] 40))"
proof -
  let ?ev = "pointerAt ''mouse'' 0 1 90"
  let ?s = "run detailsOptions fullPlatform
      [PointerDown (pointerAt ''mouse'' 0 1 100), PointerMove ?ev] (mounted ''auto'' [] 40)"
  have f: "attached ?s" "isPointerDown ?s" "pointerIdentifier ?s = Some (pointerId ?ev)"
    "isDragActive ?s" "previousUserSelect ?s = Some ''auto''" "clickListeners ?s = []"
    by (simp_all add: handler_defs host_defs fixture_defs)
  have r: "run detailsOptions fullPlatform
      [PointerDown (pointerAt ''mouse'' 0 1 100), PointerMove ?ev, PointerCancel ?ev]
      (mounted ''auto'' [] 40) = after (step detailsOptions fullPlatform (PointerCancel ?ev) ?s)"
    by simp
  from cancel_is_up_without_veto [of detailsOptions fullPlatform ?ev ?s] f
  have 1: "phase (after (step detailsOptions fullPlatform (PointerCancel ?ev) ?s)) = Idle"
    and 2: "userSelect (after (step detailsOptions fullPlatform (PointerCancel ?ev) ?s)) = ''auto''"
    and 3: "\<not> clickCancelled (after (step detailsOptions fullPlatform (PointerCancel ?ev) ?s))"
    by blast+
  have 4: "clickCancelled (run detailsOptions fullPlatform
      [PointerDown (pointerAt ''mouse'' 0 1 100), PointerMove ?ev, PointerUp ?ev]
      (mounted ''auto'' [] 40))"
    by (simp add: clickCancelled_iff handler_defs host_defs fixture_defs)
  from f(1,4) 1 2 3 4 show ?thesis
    unfolding r by blast
qed

subsection \<open>The click after a drag\<close>

lemma click_step_wiring:
  "clickListeners (after (step opts p Click s)) = clickListeners s"
  "timers (after (step opts p Click s)) = timers s"
  by (simp_all add: dispatchClick_def emit_def)

lemma clicks_keep_wiring:
  "clickListeners (run opts p (replicate n Click) s) = clickListeners s \<and>
   timers (run opts p (replicate n Click) s) = timers s"
proof (induction n arbitrary: s)
  case 0
  then show ?case by simp
next
  case (Suc n)
  have "run opts p (replicate (Suc n) Click) s =
      run opts p (replicate n Click) (after (step opts p Click s))"
    by simp
  with Suc [of "after (step opts p Click s)"] show ?case
    by (simp only: click_step_wiring)
qed

lemma timeout_after_clicks:
  "run opts p (replicate n Click @ [Timeout]) s =
     after (step opts p Timeout (run opts p (replicate n Click) s))"
proof (induction n arbitrary: s)
  case 0
  then show ?case by simp
next
  case (Suc n)
  then show ?case by simp
qed

text \<open>
  C2, as the claim states it, fails: the interceptor is removed by a zero-delay timeout,
  not by the click it cancels. After a drag ended by pointer-up, a first click leaves the
  interceptor installed and a second click dispatched before the timeout has run is
  cancelled as well; and once the timeout has run, the very next click is not cancelled.
\<close>

theorem second_click_also_cancelled:
  "phase (run detailsOptions fullPlatform
      [PointerDown (pointerAt ''mouse'' 0 1 100), PointerMove (pointerAt ''mouse'' 0 1 90)]
      (mounted ''auto'' [] 40)) = Dragging \<and>
   suppressClick (run detailsOptions fullPlatform
      [PointerDown (pointerAt ''mouse'' 0 1 100), PointerMove (pointerAt ''mouse'' 0 1 90)]
      (mounted ''auto'' [] 40)) \<and>
   phase (run detailsOptions fullPlatform
      [PointerDown (pointerAt ''mouse'' 0 1 100), PointerMove (pointerAt ''mouse'' 0 1 90),
       PointerUp (pointerAt ''mouse'' 0 1 90)]
      (mounted ''auto'' [] 40)) = Idle \<and>
   clickCancelled (run detailsOptions fullPlatform
      [PointerDown (pointerAt ''mouse'' 0 1 100), PointerMove (pointerAt ''mouse'' 0 1 90),
       PointerUp (pointerAt ''mouse'' 0 1 90)]
      (mounted ''auto'' [] 40)) \<and>
   clickListeners (run detailsOptions fullPlatform
      [PointerDown (pointerAt ''mouse'' 0 1 100), PointerMove (pointerAt ''mouse'' 0 1 90),
       PointerUp (pointerAt ''mouse'' 0 1 90), Click]
      (mounted ''auto'' [] 40)) = [0] \<and>
   clickCancelled (run detailsOptions fullPlatform
      [PointerDown (pointerAt ''mouse'' 0 1 100), PointerMove (pointerAt ''mouse'' 0 1 90),
       PointerUp (pointerAt ''mouse'' 0 1 90), Click]
      (mounted ''auto'' [] 40)) \<and>
   \<not> clickCancelled (run detailsOptions fullPlatform
      [PointerDown (pointerAt ''mouse'' 0 1 100), PointerMove (pointerAt ''mouse'' 0 1 90),
       PointerUp (pointerAt ''mouse'' 0 1 90), Timeout]
      (mounted ''auto'' [] 40))"
  by (simp add: clickCancelled_iff phase_def handler_defs host_defs fixture_defs)

text \<open>
  C2, amended: a pointer-up of the active pointer that ends a drag with \<open>suppressClick\<close> set
  returns the controller to Idle, installs one capturing click interceptor and schedules
  one zero-delay timeout that removes it. Every click dispatched to the container before
  that timeout runs is cancelled (default prevented and propagation stopped) and leaves
  the interceptor installed; when no earlier interceptor is pending, every click
  dispatched after the timeout has run is delivered without being cancelled.
\<close>

theorem clicks_cancelled_until_timeout:
  assumes "attached s" and "isPointerDown s" and "pointerIdentifier s = Some (pointerId ev)"
    and "isDragActive s" and "suppressClick s"
    and "s1 = after (step opts p (PointerUp ev) s)"
  shows "phase s1 = Idle \<and>
         clickListeners s1 = clickListeners s @ [nextClosure s] \<and>
         timers s1 = timers s @ [nextClosure s] \<and>
         (\<forall>n. clickCancelled (run opts p (replicate n Click) s1) \<and>
              clickListeners (run opts p (replicate n Click) s1) = clickListeners s1) \<and>
         (clickListeners s = [] \<and> timers s = [] \<longrightarrow>
            (\<forall>n m. clickListeners (run opts p (replicate n Click @ [Timeout]) s1) = [] \<and>
               \<not> clickCancelled
                   (run opts p (replicate m Click) (run opts p (replicate n Click @ [Timeout]) s1))))"
proof -
  have s1: "s1 = pointerReleased (installPreventClick (ended opts p s))"
    using assms(1-5) unfolding assms(6) by (simp add: finishInteraction_dragging)
  have l: "clickListeners s1 = clickListeners s @ [nextClosure s]"
    and t: "timers s1 = timers s @ [nextClosure s]"
    and ph: "phase s1 = Idle"
    by (simp_all add: s1 phase_def)
  have c: "clickCancelled (run opts p (replicate n Click) s1) \<and>
      clickListeners (run opts p (replicate n Click) s1) = clickListeners s1" for n
    using clicks_keep_wiring [of opts p n s1] l by (simp add: clickCancelled_iff)
  have d: "clickListeners (run opts p (replicate n Click @ [Timeout]) s1) = [] \<and>
      \<not> clickCancelled
         (run opts p (replicate m Click) (run opts p (replicate n Click @ [Timeout]) s1))"
    if e: "clickListeners s = [] \<and> timers s = []" for n m
  proof -
    let ?t = "run opts p (replicate n Click) s1"
    have "clickListeners ?t = [nextClosure s]" and "timers ?t = [nextClosure s]"
      using clicks_keep_wiring [of opts p n s1] l t e by simp_all
    then have "clickListeners (after (step opts p Timeout ?t)) = []"
      by (simp add: fireTimeout_def emit_def)
    then have z: "clickListeners (run opts p (replicate n Click @ [Timeout]) s1) = []"
      by (simp only: timeout_after_clicks)
    with clicks_keep_wiring
      [of opts p m "run opts p (replicate n Click @ [Timeout]) s1"]
    show ?thesis
      by (simp add: clickCancelled_iff)
  qed
  from ph l t c d show ?thesis by blast
qed

theorem clicks_cancelled_until_timeout_witness:
  "attached (run detailsOptions fullPlatform
      [PointerDown (pointerAt ''mouse'' 0 1 100), PointerMove (pointerAt ''mouse'' 0 1 90)]
      (mounted ''auto'' [] 40)) \<and>
   isDragActive (run detailsOptions fullPlatform
      [PointerDown (pointerAt ''mouse'' 0 1 100), PointerMove (pointerAt ''mouse'' 0 1 90)]
      (mounted ''auto'' [] 40)) \<and>
   suppressClick (run detailsOptions fullPlatform
      [PointerDown (pointerAt ''mouse'' 0 1 100), PointerMove (pointerAt ''mouse'' 0 1 90)]
      (mounted ''auto'' [] 40)) \<and>
   phase (run detailsOptions fullPlatform
      [PointerDown (pointerAt ''mouse'' 0 1 100), PointerMove (pointerAt ''mouse'' 0 1 90),
       PointerUp (pointerAt ''mouse'' 0 1 90)]
      (mounted ''auto'' [] 40)) = Idle \<and>
   clickCancelled (run detailsOptions fullPlatform (replicate 2 Click)
     (run detailsOptions fullPlatform
      [PointerDown (pointerAt ''mouse'' 0 1 100), PointerMove (pointerAt ''mouse'' 0 1 90),
       PointerUp (pointerAt ''mouse'' 0 1 90)]
      (mounted ''auto'' [] 40))) \<and>
   \<not> clickCancelled (run detailsOptions fullPlatform (replicate 1 Click @ [Timeout])
     (run detailsOptions fullPlatform
      [PointerDown (pointerAt ''mouse'' 0 1 100), PointerMove (pointerAt ''mouse'' 0 1 90),
       PointerUp (pointerAt ''mouse'' 0 1 90)]
      (mounted ''auto'' [] 40)))"
proof -
  let ?ev = "pointerAt ''mouse'' 0 1 90"
  let ?s = "run detailsOptions fullPlatform
      [PointerDown (pointerAt ''mouse'' 0 1 100), PointerMove ?ev] (mounted ''auto'' [] 40)"
  let ?s1 = "after (step detailsOptions fullPlatform (PointerUp ?ev) ?s)"
  have f: "attached ?s" "isPointerDown ?s" "pointerIdentifier ?s = Some (pointerId ?ev)"
    "isDragActive ?s" "suppressClick ?s"
    and e: "clickListeners ?s = [] \<and> timers ?s = []"
    by (simp_all add: handler_defs host_defs fixture_defs)
  have r: "run detailsOptions fullPlatform
      [PointerDown (pointerAt ''mouse'' 0 1 100), PointerMove ?ev, PointerUp ?ev]
      (mounted ''auto'' [] 40) = ?s1"
    by simp
  note t = clicks_cancelled_until_timeout [OF f refl, of detailsOptions fullPlatform]
  from t have 1: "phase ?s1 = Idle"
    by blast
  from t have 2: "clickCancelled (run detailsOptions fullPlatform (replicate 2 Click) ?s1)"
    by blast
  from t e have "\<not> clickCancelled (run detailsOptions fullPlatform (replicate 0 Click)
      (run detailsOptions fullPlatform (replicate 1 Click @ [Timeout]) ?s1))"
    by blast
  then have 3: "\<not> clickCancelled
      (run detailsOptions fullPlatform (replicate 1 Click @ [Timeout]) ?s1)"
    by simp
  from f(1,4,5) 1 2 3 show ?thesis
    unfolding r by blast
qed

subsection \<open>The invariant of the reachable states\<close>

lemma down_step:
  "step opts p (PointerDown ev) s =
     Returns (if attached s \<and> qualifies opts ev
              then s\<lparr>isPointerDown := True, pointerIdentifier := Some (pointerId ev),
                     startY := clientY ev, startScrollTop := scrollTop s,
                     suppressClick := False\<rparr>
              else s)"
  by (cases "qualifies opts ev") (simp_all add: onPointerDown_qualifies onPointerDown_filtered)

lemma move_step:
  "step opts p (PointerMove ev) s =
     Returns (if attached s \<and> isPointerDown s \<and> pointerIdentifier s = Some (pointerId ev) \<and>
                 (isDragActive s \<or> \<bar>clientY ev - startY s\<bar> > 2)
              then emit [ScrollTopSet (startScrollTop s - (clientY ev - startY s)), DefaultPrevented]
                     ((if isDragActive s then s else began opts p (pointerId ev) s)
                        \<lparr>suppressClick := True,
                         scrollTop := startScrollTop s - (clientY ev - startY s)\<rparr>)
              else s)"
  by (cases "isPointerDown s"; cases "pointerIdentifier s = Some (pointerId ev)";
      cases "isDragActive s"; cases "\<bar>clientY ev - startY s\<bar> > 2")
     (simp_all add: onPointerMove_foreign onPointerMove_below onPointerMove_begin
        onPointerMove_dragging)

lemma detach_step:
  "step opts p Detach s =
     Returns (if attached s
              then emit [ListenersRemoved]
                     ((if isDragActive s then ended opts p s else s)\<lparr>attached := False\<rparr>)
              else s)"
  by (cases "isDragActive s") (simp_all add: teardown_dragging teardown_not_dragging)

lemma consistent_mounted: "consistent v (mounted v cls y)"
  by (simp add: consistent_def mounted_def)

lemma consistent_step:
  assumes "consistent v s"
  shows "consistent v (after (step opts p e s))"
proof (cases e)
  case (PointerDown ev)
  with assms show ?thesis
    unfolding PointerDown down_step by (auto simp add: consistent_def)
next
  case (PointerMove ev)
  with assms show ?thesis
    unfolding PointerMove move_step by (auto simp add: consistent_def emit_def)
next
  case (PointerUp ev)
  with assms show ?thesis
    unfolding PointerUp up_step by (auto simp add: consistent_def)
next
  case (PointerLeave ev)
  have "step opts p (PointerLeave ev) s = step opts p (PointerCancel ev) s"
    by simp
  with assms show ?thesis
    unfolding PointerLeave cancel_step by (auto simp add: consistent_def)
next
  case (PointerCancel ev)
  with assms show ?thesis
    unfolding PointerCancel cancel_step by (auto simp add: consistent_def)
next
  case Click
  with assms show ?thesis
    by (auto simp add: consistent_def dispatchClick_def emit_def)
next
  case Timeout
  with assms show ?thesis
    by (auto simp add: consistent_def fireTimeout_def emit_def split: list.split)
next
  case Detach
  with assms show ?thesis
    unfolding Detach detach_step by (auto simp add: consistent_def emit_def)
qed

lemma consistent_run: "consistent v s \<Longrightarrow> consistent v (run opts p es s)"
  by (induction es arbitrary: s) (simp_all add: consistent_step)

subsection \<open>Counting saves and restores\<close>

lemma saves_append [simp]: "saves (xs @ ys) = saves xs + saves ys"
  by (simp add: saves_def)

lemma restores_append [simp]: "restores (xs @ ys) = restores xs + restores ys"
  by (simp add: restores_def)

lemma saves_Nil [simp]: "saves [] = 0"
  by (simp add: saves_def)

lemma restores_Nil [simp]: "restores [] = 0"
  by (simp add: restores_def)

lemma click_no_save:
  "saves (concat (map (\<lambda>k. [DefaultPrevented, PropagationStopped]) ks)) = 0"
  "restores (concat (map (\<lambda>k. [DefaultPrevented, PropagationStopped]) ks)) = 0"
  by (induction ks) (simp_all add: saves_def restores_def)

lemma step_extends:
  "effects (after (step opts p e s)) = effects s @ emitted s (after (step opts p e s))"
proof (cases e)
  case (PointerDown ev)
  show ?thesis unfolding PointerDown down_step by simp
next
  case (PointerMove ev)
  show ?thesis unfolding PointerMove move_step by (simp add: emit_def)
next
  case (PointerUp ev)
  show ?thesis unfolding PointerUp up_step by simp
next
  case (PointerLeave ev)
  have "step opts p (PointerLeave ev) s = step opts p (PointerCancel ev) s"
    by simp
  then show ?thesis unfolding PointerLeave cancel_step by simp
next
  case (PointerCancel ev)
  show ?thesis unfolding PointerCancel cancel_step by simp
next
  case Click
  then show ?thesis by (simp add: dispatchClick_def emit_def)
next
  case Timeout
  then show ?thesis by (simp add: fireTimeout_def emit_def split: list.split)
next
  case Detach
  show ?thesis unfolding Detach detach_step by (simp add: emit_def)
qed

lemma step_saves:
  "saves (emitted s (after (step opts p e s))) =
     (if \<not> isDragActive s \<and> isDragActive (after (step opts p e s)) then 1 else 0)"
proof (cases e)
  case (PointerDown ev)
  show ?thesis unfolding PointerDown down_step by simp
next
  case (PointerMove ev)
  show ?thesis unfolding PointerMove move_step by (simp add: emit_def saves_def)
next
  case (PointerUp ev)
  show ?thesis unfolding PointerUp up_step by (simp add: saves_def split: option.split)
next
  case (PointerLeave ev)
  have "step opts p (PointerLeave ev) s = step opts p (PointerCancel ev) s"
    by simp
  then show ?thesis
    unfolding PointerLeave cancel_step by (simp add: saves_def split: option.split)
next
  case (PointerCancel ev)
  show ?thesis unfolding PointerCancel cancel_step by (simp add: saves_def split: option.split)
next
  case Click
  then show ?thesis by (simp add: dispatchClick_def emit_def click_no_save)
next
  case Timeout
  then show ?thesis by (simp add: fireTimeout_def emit_def saves_def split: list.split)
next
  case Detach
  show ?thesis
    unfolding Detach detach_step by (simp add: emit_def saves_def split: option.split)
qed

lemma step_restores:
  assumes "consistent v s"
  shows "restores (emitted s (after (step opts p e s))) =
     (if isDragActive s \<and> \<not> isDragActive (after (step opts p e s)) then 1 else 0)"
proof -
  from assms have d: "isDragActive s \<Longrightarrow> previousUserSelect s = Some v"
    by (simp add: consistent_def)
  show ?thesis
  proof (cases e)
    case (PointerDown ev)
    show ?thesis unfolding PointerDown down_step by simp
  next
    case (PointerMove ev)
    show ?thesis unfolding PointerMove move_step by (simp add: emit_def restores_def)
  next
    case (PointerUp ev)
    from d show ?thesis
      unfolding PointerUp up_step by (simp add: restores_def split: option.split)
  next
    case (PointerLeave ev)
    have "step opts p (PointerLeave ev) s = step opts p (PointerCancel ev) s"
      by simp
    with d show ?thesis
      unfolding PointerLeave cancel_step by (simp add: restores_def split: option.split)
  next
    case (PointerCancel ev)
    from d show ?thesis
      unfolding PointerCancel cancel_step by (simp add: restores_def split: option.split)
  next
    case Click
    then show ?thesis by (simp add: dispatchClick_def emit_def click_no_save)
  next
    case Timeout
    then show ?thesis by (simp add: fireTimeout_def emit_def restores_def split: list.split)
  next
    case Detach
    from d show ?thesis
      unfolding Detach detach_step by (simp add: emit_def restores_def split: option.split)
  qed
qed

lemma extends_trans:
  fixes a b c :: "'a list"
  assumes "b = a @ drop (length a) b" and "c = b @ drop (length b) c"
  shows "c = a @ drop (length a) c"
    and "drop (length a) c = drop (length a) b @ drop (length b) c"
proof -
  obtain x where x: "b = a @ x"
    using assms(1) by blast
  obtain y where y: "c = b @ y"
    using assms(2) by blast
  from x y show "c = a @ drop (length a) c"
    by simp
  from x y show "drop (length a) c = drop (length a) b @ drop (length b) c"
    by simp
qed

lemma run_extends: "effects (run opts p es s) = effects s @ emitted s (run opts p es s)"
proof (induction es arbitrary: s)
  case Nil
  show ?case by simp
next
  case (Cons e es)
  let ?s1 = "after (step opts p e s)"
  have 1: "effects ?s1 = effects s @ drop (length (effects s)) (effects ?s1)"
    using step_extends [of opts p e s] by simp
  have 2: "effects (run opts p es ?s1) =
      effects ?s1 @ drop (length (effects ?s1)) (effects (run opts p es ?s1))"
    using Cons.IH [of ?s1] by simp
  from extends_trans(1) [OF 1 2] show ?case
    by simp
qed

lemma emitted_run_Cons:
  "emitted s (run opts p (e # es) s) =
     emitted s (after (step opts p e s)) @
     emitted (after (step opts p e s)) (run opts p es (after (step opts p e s)))"
proof -
  let ?s1 = "after (step opts p e s)"
  have 1: "effects ?s1 = effects s @ drop (length (effects s)) (effects ?s1)"
    using step_extends [of opts p e s] by simp
  have 2: "effects (run opts p es ?s1) =
      effects ?s1 @ drop (length (effects ?s1)) (effects (run opts p es ?s1))"
    using run_extends [of opts p es ?s1] by simp
  from extends_trans(2) [OF 1 2] show ?thesis
    by simp
qed

lemma saves_run_Cons:
  "saves (emitted s (run opts p (e # es) s)) =
     saves (emitted s (after (step opts p e s))) +
     saves (emitted (after (step opts p e s)) (run opts p es (after (step opts p e s))))"
  by (simp only: emitted_run_Cons saves_append)

lemma restores_run_Cons:
  "restores (emitted s (run opts p (e # es) s)) =
     restores (emitted s (after (step opts p e s))) +
     restores (emitted (after (step opts p e s)) (run opts p es (after (step opts p e s))))"
  by (simp only: emitted_run_Cons restores_append)

lemma saves_restores_balance:
  assumes "consistent v s"
  shows "saves (emitted s (run opts p es s)) + (if isDragActive s then 1 else 0) =
         restores (emitted s (run opts p es s)) + (if isDragActive (run opts p es s) then 1 else 0)"
  using assms
proof (induction es arbitrary: s)
  case Nil
  show ?case by simp
next
  case (Cons e es)
  let ?s1 = "after (step opts p e s)"
  have c1: "consistent v ?s1"
    using Cons.prems by (rule consistent_step)
  have ih: "saves (emitted ?s1 (run opts p es ?s1)) + (if isDragActive ?s1 then 1 else 0) =
      restores (emitted ?s1 (run opts p es ?s1)) +
      (if isDragActive (run opts p es ?s1) then 1 else 0)"
    using c1 by (rule Cons.IH)
  have a: "saves (emitted s ?s1) = (if \<not> isDragActive s \<and> isDragActive ?s1 then 1 else 0)"
    by (rule step_saves)
  have b: "restores (emitted s ?s1) = (if isDragActive s \<and> \<not> isDragActive ?s1 then 1 else 0)"
    using Cons.prems by (rule step_restores)
  have r: "isDragActive (run opts p (e # es) s) = isDragActive (run opts p es ?s1)"
    by simp
  show ?case
    unfolding saves_run_Cons restores_run_Cons r a b
    using ih by (simp only: split: if_splits) (simp_all del: emitted_def)
qed

subsection \<open>One save per gesture\<close>

lemma runStates_Nil_iff: "runStates opts p es s = [] \<longleftrightarrow> es = []"
  by (cases es) simp_all

lemma intermediate_Cons:
  assumes "\<forall>t \<in> set (butlast (runStates opts p (e # es) s)). phase t \<noteq> Idle" and "es \<noteq> []"
  shows "phase (after (step opts p e s)) \<noteq> Idle"
    and "\<forall>t \<in> set (butlast (runStates opts p es (after (step opts p e s)))). phase t \<noteq> Idle"
  using assms by (simp_all add: runStates_Nil_iff)

lemma detached_step:
  assumes "\<not> attached s"
  shows "\<not> attached (after (step opts p e s))"
    and "isDragActive (after (step opts p e s)) = isDragActive s"
  using assms
  by (cases e; simp add: dispatchClick_def fireTimeout_def emit_def split: list.split)+

lemma detached_no_saves:
  "\<not> attached s \<Longrightarrow> \<not> isDragActive s \<Longrightarrow> saves (emitted s (run opts p es s)) = 0"
proof (induction es arbitrary: s)
  case Nil
  show ?case by simp
next
  case (Cons e es)
  let ?s1 = "after (step opts p e s)"
  from Cons.prems have d: "\<not> attached ?s1" and n: "\<not> isDragActive ?s1"
    by (simp_all only: detached_step not_False_eq_True)
  have "saves (emitted s ?s1) = 0"
    using n by (simp only: step_saves) simp
  moreover have "saves (emitted ?s1 (run opts p es ?s1)) = 0"
    using d n by (rule Cons.IH)
  ultimately show ?case
    by (simp only: saves_run_Cons)
qed

lemma drag_ended_by:
  assumes "isDragActive s" and "\<not> isDragActive (after (step opts p e s))"
    and "phase (after (step opts p e s)) \<noteq> Idle"
  shows "\<not> attached (after (step opts p e s))"
proof (cases e)
  case (PointerDown ev)
  with assms show ?thesis
    unfolding PointerDown down_step by (simp split: if_splits)
next
  case (PointerMove ev)
  with assms show ?thesis
    unfolding PointerMove move_step by (simp add: emit_def split: if_splits)
next
  case (PointerUp ev)
  with assms show ?thesis
    unfolding PointerUp up_step by (simp add: phase_def split: if_splits)
next
  case (PointerLeave ev)
  have "step opts p (PointerLeave ev) s = step opts p (PointerCancel ev) s"
    by simp
  with assms show ?thesis
    unfolding PointerLeave cancel_step by (simp add: phase_def split: if_splits)
next
  case (PointerCancel ev)
  with assms show ?thesis
    unfolding PointerCancel cancel_step by (simp add: phase_def split: if_splits)
next
  case Click
  with assms show ?thesis by (simp add: dispatchClick_def emit_def)
next
  case Timeout
  with assms show ?thesis by (simp add: fireTimeout_def emit_def split: list.splits)
next
  case Detach
  with assms show ?thesis
    unfolding Detach detach_step by (simp add: emit_def split: if_splits)
qed

lemma dragging_no_more_saves:
  assumes "isDragActive s"
    and "\<forall>t \<in> set (butlast (runStates opts p es s)). phase t \<noteq> Idle"
  shows "saves (emitted s (run opts p es s)) = 0"
  using assms
proof (induction es arbitrary: s)
  case Nil
  show ?case by simp
next
  case (Cons e es)
  let ?s1 = "after (step opts p e s)"
  have z: "saves (emitted s ?s1) = 0"
    using Cons.prems(1) by (simp only: step_saves) simp
  have "saves (emitted ?s1 (run opts p es ?s1)) = 0"
  proof (cases "es = []")
    case True
    then show ?thesis by simp
  next
    case False
    note i = intermediate_Cons [OF Cons.prems(2) False]
    show ?thesis
    proof (cases "isDragActive ?s1")
      case True
      then show ?thesis using i(2) by (rule Cons.IH)
    next
      case False
      with Cons.prems(1) i(1) have "\<not> attached ?s1"
        by (simp only: drag_ended_by not_False_eq_True)
      then show ?thesis using False by (rule detached_no_saves)
    qed
  qed
  with z show ?case
    by (simp only: saves_run_Cons)
qed

lemma at_most_one_save:
  assumes "\<not> isDragActive s"
    and "\<forall>t \<in> set (butlast (runStates opts p es s)). phase t \<noteq> Idle"
  shows "saves (emitted s (run opts p es s)) \<le> 1"
  using assms
proof (induction es arbitrary: s)
  case Nil
  show ?case by simp
next
  case (Cons e es)
  let ?s1 = "after (step opts p e s)"
  have a: "saves (emitted s ?s1) = (if \<not> isDragActive s \<and> isDragActive ?s1 then 1 else 0)"
    by (rule step_saves)
  show ?case
  proof (cases "es = []")
    case True
    have "run opts p (e # es) s = ?s1"
      using True by simp
    then show ?thesis
      using a by (simp only: split: if_splits) simp_all
  next
    case False
    note i = intermediate_Cons [OF Cons.prems(2) False]
    show ?thesis
    proof (cases "isDragActive ?s1")
      case True
      then have "saves (emitted ?s1 (run opts p es ?s1)) = 0"
        using i(2) by (rule dragging_no_more_saves)
      with a show ?thesis
        by (simp only: saves_run_Cons split: if_splits) simp_all
    next
      case False
      then have "saves (emitted ?s1 (run opts p es ?s1)) \<le> 1"
        using i(2) by (rule Cons.IH)
      moreover from a False have "saves (emitted s ?s1) = 0"
        by (simp only: split: if_splits) simp_all
      ultimately show ?thesis
        by (simp only: saves_run_Cons)
    qed
  qed
qed

lemma drag_begun_from_armed:
  assumes "\<not> isDragActive s" and "isDragActive (after (step opts p e s))"
  shows "phase s = Armed"
proof (cases e)
  case (PointerDown ev)
  with assms show ?thesis
    unfolding PointerDown down_step by (simp split: if_splits)
next
  case (PointerMove ev)
  with assms show ?thesis
    unfolding PointerMove move_step by (simp add: emit_def phase_def split: if_splits)
next
  case (PointerUp ev)
  with assms show ?thesis
    unfolding PointerUp up_step by (simp split: if_splits)
next
  case (PointerLeave ev)
  have "step opts p (PointerLeave ev) s = step opts p (PointerCancel ev) s"
    by simp
  with assms show ?thesis
    unfolding PointerLeave cancel_step by (simp split: if_splits)
next
  case (PointerCancel ev)
  with assms show ?thesis
    unfolding PointerCancel cancel_step by (simp split: if_splits)
next
  case Click
  with assms show ?thesis by (simp add: dispatchClick_def emit_def)
next
  case Timeout
  with assms show ?thesis by (simp add: fireTimeout_def emit_def split: list.splits)
next
  case Detach
  with assms show ?thesis
    unfolding Detach detach_step by (simp add: emit_def split: if_splits)
qed

subsection \<open>The selection mode across a gesture\<close>

text \<open>
  C3: start in Idle, in a reachable state, on a page whose selection mode is \<open>v\<close>, and
  handle any sequence of events. If the controller is then back in Idle, or detached, the
  selection mode is \<open>v\<close> again, nothing is left saved, and the mode has been restored as
  often as it has been saved. If the controller was never Idle in between (one gesture),
  the mode has been saved at most once, hence restored exactly once if it was saved. A
  save happens only in a step from Armed to Dragging.
\<close>

theorem selection_mode_round_trip:
  assumes "consistent v s" and "phase s = Idle"
    and "s' = run opts p es s" and "phase s' = Idle \<or> \<not> attached s'"
  shows "userSelect s = v \<and> userSelect s' = v \<and> previousUserSelect s' = None \<and>
         restores (emitted s s') = saves (emitted s s') \<and>
         ((\<forall>t \<in> set (butlast (runStates opts p es s)). phase t \<noteq> Idle) \<longrightarrow>
            saves (emitted s s') \<le> 1) \<and>
         (\<forall>t e. saves (emitted t (after (step opts p e t))) \<noteq> 0 \<longrightarrow>
            phase t = Armed \<and> phase (after (step opts p e t)) = Dragging)"
proof (intro conjI impI allI)
  from assms(2) have n: "\<not> isDragActive s"
    by (simp add: phase_def split: if_splits)
  with assms(1) show "userSelect s = v"
    by (simp add: consistent_def)
  have c': "consistent v s'"
    unfolding assms(3) using assms(1) by (rule consistent_run)
  have n': "\<not> isDragActive s'"
  proof (cases "attached s'")
    case True
    with assms(4) show ?thesis
      by (simp add: phase_def split: if_splits)
  next
    case False
    with c' show ?thesis
      by (auto simp add: consistent_def)
  qed
  from c' n' show "userSelect s' = v" and "previousUserSelect s' = None"
    by (simp_all add: consistent_def)
  from saves_restores_balance [OF assms(1), of opts p es] n n'
  show "restores (emitted s s') = saves (emitted s s')"
    unfolding assms(3) by (simp del: emitted_def)
  show "saves (emitted s s') \<le> 1"
    if "\<forall>t \<in> set (butlast (runStates opts p es s)). phase t \<noteq> Idle"
    unfolding assms(3) using n that by (rule at_most_one_save)
next
  fix t e
  assume a: "saves (emitted t (after (step opts p e t))) \<noteq> 0"
  then have b: "\<not> isDragActive t \<and> isDragActive (after (step opts p e t))"
    by (simp only: step_saves split: if_splits) simp_all
  then show "phase t = Armed"
    using drag_begun_from_armed by blast
  from b show "phase (after (step opts p e t)) = Dragging"
    by (simp add: phase_def)
qed

theorem selection_mode_round_trip_witness:
  "phase (mounted ''auto'' [] 40) = Idle \<and>
   phase (run detailsOptions fullPlatform
      [PointerDown (pointerAt ''mouse'' 0 1 100), PointerMove (pointerAt ''mouse'' 0 1 90),
       PointerMove (pointerAt ''mouse'' 0 1 80), PointerUp (pointerAt ''mouse'' 0 1 80)]
      (mounted ''auto'' [] 40)) = Idle \<and>
   userSelect (run detailsOptions fullPlatform
      [PointerDown (pointerAt ''mouse'' 0 1 100), PointerMove (pointerAt ''mouse'' 0 1 90)]
      (mounted ''auto'' [] 40)) = ''none'' \<and>
   userSelect (run detailsOptions fullPlatform
      [PointerDown (pointerAt ''mouse'' 0 1 100), PointerMove (pointerAt ''mouse'' 0 1 90),
       PointerMove (pointerAt ''mouse'' 0 1 80), PointerUp (pointerAt ''mouse'' 0 1 80)]
      (mounted ''auto'' [] 40)) = ''auto'' \<and>
   saves (emitted (mounted ''auto'' [] 40) (run detailsOptions fullPlatform
      [PointerDown (pointerAt ''mouse'' 0 1 100), PointerMove (pointerAt ''mouse'' 0 1 90),
       PointerMove (pointerAt ''mouse'' 0 1 80), PointerUp (pointerAt ''mouse'' 0 1 80)]
      (mounted ''auto'' [] 40))) = 1 \<and>
   restores (emitted (mounted ''auto'' [] 40) (run detailsOptions fullPlatform
      [PointerDown (pointerAt ''mouse'' 0 1 100), PointerMove (pointerAt ''mouse'' 0 1 90),
       PointerMove (pointerAt ''mouse'' 0 1 80), PointerUp (pointerAt ''mouse'' 0 1 80)]
      (mounted ''auto'' [] 40))) = 1"
proof -
  let ?m = "mounted ''auto'' [] 40"
  let ?es = "[PointerDown (pointerAt ''mouse'' 0 1 100), PointerMove (pointerAt ''mouse'' 0 1 90),
       PointerMove (pointerAt ''mouse'' 0 1 80), PointerUp (pointerAt ''mouse'' 0 1 80)]"
  let ?s' = "run detailsOptions fullPlatform ?es ?m"
  have c: "consistent ''auto'' ?m"
    by (rule consistent_mounted)
  have i: "phase ?m = Idle"
    by (simp add: phase_def mounted_def)
  have i': "phase ?s' = Idle \<or> \<not> attached ?s'"
    by (simp add: phase_def handler_defs host_defs fixture_defs)
  have g: "\<forall>t \<in> set (butlast (runStates detailsOptions fullPlatform ?es ?m)). phase t \<noteq> Idle"
    by (simp add: phase_def handler_defs host_defs fixture_defs)
  have d: "userSelect (run detailsOptions fullPlatform
      [PointerDown (pointerAt ''mouse'' 0 1 100), PointerMove (pointerAt ''mouse'' 0 1 90)] ?m)
      = ''none''"
    and p': "phase ?s' = Idle"
    by (simp_all add: phase_def handler_defs host_defs fixture_defs)
  have one: "saves (emitted ?m ?s') \<noteq> 0"
    by (simp add: saves_def handler_defs host_defs fixture_defs)
  note t = selection_mode_round_trip [OF c i refl i']
  from t have 1: "userSelect ?s' = ''auto''"
    by blast
  from t have 2: "restores (emitted ?m ?s') = saves (emitted ?m ?s')"
    by blast
  from t g have "saves (emitted ?m ?s') \<le> 1"
    by blast
  with one have 3: "saves (emitted ?m ?s') = 1"
    by linarith
  with 2 have 4: "restores (emitted ?m ?s') = 1"
    by (simp only:)
  from i p' d 1 3 4 show ?thesis
    by blast
qed

subsection \<open>The pointer a drag has captured\<close>

text \<open>
  While only one pointer-down has been accepted, the stored pointer id is that pointer's,
  and an active drag holds its capture if the platform granted it.
\<close>

lemma moves_keep_owner:
  assumes "\<not> isPointerDown s \<and> \<not> isDragActive s \<or>
           isPointerDown s \<and> pointerIdentifier s = Some i \<and>
           (isDragActive s \<longrightarrow> captureGranted p i \<longrightarrow> i \<in> captured s)"
  shows "\<not> isPointerDown (run opts p (map PointerMove mvs) s) \<and>
         \<not> isDragActive (run opts p (map PointerMove mvs) s) \<or>
         isPointerDown (run opts p (map PointerMove mvs) s) \<and>
         pointerIdentifier (run opts p (map PointerMove mvs) s) = Some i \<and>
         (isDragActive (run opts p (map PointerMove mvs) s) \<longrightarrow> captureGranted p i \<longrightarrow>
            i \<in> captured (run opts p (map PointerMove mvs) s))"
  using assms
proof (induction mvs arbitrary: s)
  case Nil
  then show ?case by simp
next
  case (Cons m mvs)
  let ?s1 = "after (step opts p (PointerMove m) s)"
  have "\<not> isPointerDown ?s1 \<and> \<not> isDragActive ?s1 \<or>
        isPointerDown ?s1 \<and> pointerIdentifier ?s1 = Some i \<and>
        (isDragActive ?s1 \<longrightarrow> captureGranted p i \<longrightarrow> i \<in> captured ?s1)"
    using Cons.prems unfolding move_step by (auto simp add: emit_def)
  then show ?case
    using Cons.IH [of ?s1] by simp
qed

lemma single_gesture_owner:
  assumes "phase s0 = Idle"
    and "isDragActive (run opts p (PointerDown dn # map PointerMove mvs) s0)"
    and "captureGranted p (pointerId dn)"
  shows "pointerIdentifier (run opts p (PointerDown dn # map PointerMove mvs) s0)
           = Some (pointerId dn) \<and>
         pointerId dn \<in> captured (run opts p (PointerDown dn # map PointerMove mvs) s0)"
proof -
  let ?s1 = "after (step opts p (PointerDown dn) s0)"
  from assms(1) have n: "\<not> isPointerDown s0" "\<not> isDragActive s0"
    by (simp_all add: phase_def split: if_splits)
  then have "\<not> isPointerDown ?s1 \<and> \<not> isDragActive ?s1 \<or>
        isPointerDown ?s1 \<and> pointerIdentifier ?s1 = Some (pointerId dn) \<and>
        (isDragActive ?s1 \<longrightarrow> captureGranted p (pointerId dn) \<longrightarrow>
           pointerId dn \<in> captured ?s1)"
    unfolding down_step by simp
  from moves_keep_owner [OF this, of opts mvs] assms(2,3) show ?thesis
    by auto
qed

subsection \<open>Detaching during a drag\<close>

text \<open>
  C8, as the claim states it, fails in its release part: \<open>endDrag\<close> asks only about the
  stored pointer id. After a second pointer-down has taken the gesture over, the stored id
  is the new pointer's while the capture is still held for the first; detaching then
  requests no release and the first pointer stays captured.
\<close>

theorem detach_after_take_over_keeps_capture:
  "phase (mounted ''auto'' [] 40) = Idle \<and>
   phase (run detailsOptions fullPlatform
      [PointerDown (pointerAt ''mouse'' 0 1 100), PointerMove (pointerAt ''mouse'' 0 1 90),
       PointerDown (pointerAt ''pen'' 0 2 50)]
      (mounted ''auto'' [] 40)) = Dragging \<and>
   captured (run detailsOptions fullPlatform
      [PointerDown (pointerAt ''mouse'' 0 1 100), PointerMove (pointerAt ''mouse'' 0 1 90),
       PointerDown (pointerAt ''pen'' 0 2 50)]
      (mounted ''auto'' [] 40)) = {1} \<and>
   pointerIdentifier (run detailsOptions fullPlatform
      [PointerDown (pointerAt ''mouse'' 0 1 100), PointerMove (pointerAt ''mouse'' 0 1 90),
       PointerDown (pointerAt ''pen'' 0 2 50)]
      (mounted ''auto'' [] 40)) = Some 2 \<and>
   emitted
     (run detailsOptions fullPlatform
        [PointerDown (pointerAt ''mouse'' 0 1 100), PointerMove (pointerAt ''mouse'' 0 1 90),
         PointerDown (pointerAt ''pen'' 0 2 50)]
        (mounted ''auto'' [] 40))
     (run detailsOptions fullPlatform
        [PointerDown (pointerAt ''mouse'' 0 1 100), PointerMove (pointerAt ''mouse'' 0 1 90),
         PointerDown (pointerAt ''pen'' 0 2 50), Detach]
        (mounted ''auto'' [] 40)) =
     [ClassRemoved ''drag-scroll-active'', RestoreUserSelect ''auto'', ListenersRemoved] \<and>
   captured (run detailsOptions fullPlatform
      [PointerDown (pointerAt ''mouse'' 0 1 100), PointerMove (pointerAt ''mouse'' 0 1 90),
       PointerDown (pointerAt ''pen'' 0 2 50), Detach]
      (mounted ''auto'' [] 40)) = {1}"
  by (simp add: phase_def handler_defs host_defs fixture_defs)

text \<open>
  C8, amended: let the controller reach phase Dragging from an Idle state. Running the
  cleanup function then returns without an exception; it asks for the capture of the
  stored pointer id to be released exactly if the element reports that id captured (and
  the pointer is no longer captured if the release is granted), removes the active class,
  restores the selection mode to the value it had in the Idle state and only then removes
  the listeners, in this order; afterwards no drag is active, nothing is saved, and
  pointer events are no longer handled. In a gesture of one pointer-down followed by
  moves, on a platform that granted the capture and has \<open>hasPointerCapture\<close>, the release
  of that pointer is requested. A capture held for another pointer than the stored one is
  not released.
\<close>

theorem detach_while_dragging_cleans_up:
  assumes "consistent v s0" and "phase s0 = Idle"
    and "s = run opts p es s0" and "phase s = Dragging"
    and "s' = after (step opts p Detach s)"
  shows "step opts p Detach s = Returns s' \<and>
         emitted s s' =
           (case pointerIdentifier s of
              None \<Rightarrow> []
            | Some i \<Rightarrow> if hasPointerCapture p i s then [ReleaseRequested i] else []) @
           [ClassRemoved (activeClass opts), RestoreUserSelect (userSelect s0), ListenersRemoved] \<and>
         (\<forall>i. pointerIdentifier s = Some i \<and> hasPointerCapture p i s \<and> releaseGranted p i
              \<longrightarrow> i \<notin> captured s') \<and>
         activeClass opts \<notin> set (classList s') \<and>
         userSelect s' = userSelect s0 \<and>
         previousUserSelect s' = None \<and>
         phase s' \<noteq> Dragging \<and>
         \<not> attached s' \<and>
         (\<forall>ev. step opts p (PointerDown ev) s' = Returns s' \<and>
               step opts p (PointerMove ev) s' = Returns s' \<and>
               step opts p (PointerUp ev) s' = Returns s' \<and>
               step opts p (PointerLeave ev) s' = Returns s' \<and>
               step opts p (PointerCancel ev) s' = Returns s') \<and>
         (\<forall>dn mvs. es = PointerDown dn # map PointerMove mvs \<and>
               captureGranted p (pointerId dn) \<and> supportsHasPointerCapture p \<longrightarrow>
               ReleaseRequested (pointerId dn) \<in> set (emitted s s') \<and>
               (releaseGranted p (pointerId dn) \<longrightarrow> pointerId dn \<notin> captured s')) \<and>
         (\<forall>j. ReleaseRequested j \<in> set (emitted s s') \<longrightarrow> pointerIdentifier s = Some j)"
proof -
  from assms(2) have "\<not> isDragActive s0"
    by (simp add: phase_def split: if_splits)
  with assms(1) have v: "userSelect s0 = v"
    by (simp add: consistent_def)
  have c: "consistent v s"
    unfolding assms(3) using assms(1) by (rule consistent_run)
  from assms(4) have d: "isDragActive s"
    by (simp add: phase_def split: if_splits)
  with c have a: "attached s" and pv: "previousUserSelect s = Some v"
    by (simp_all add: consistent_def)
  have s': "s' = emit [ListenersRemoved] ((ended opts p s)\<lparr>attached := False\<rparr>)"
    unfolding assms(5) detach_step using a d by simp
  have 1: "step opts p Detach s = Returns s'"
    unfolding s' detach_step using a d by simp
  have 2: "emitted s s' =
           (case pointerIdentifier s of
              None \<Rightarrow> []
            | Some i \<Rightarrow> if hasPointerCapture p i s then [ReleaseRequested i] else []) @
           [ClassRemoved (activeClass opts), RestoreUserSelect (userSelect s0), ListenersRemoved]"
    unfolding s' using pv v
    by (simp add: emit_def releaseAttempted_def hasPointerCapture_def split: option.split)
  have 3: "\<forall>i. pointerIdentifier s = Some i \<and> hasPointerCapture p i s \<and> releaseGranted p i
              \<longrightarrow> i \<notin> captured s'"
    unfolding s' by (simp add: emit_def releaseAttempted_def hasPointerCapture_def)
  have 4: "activeClass opts \<notin> set (classList s')" "userSelect s' = userSelect s0"
    "previousUserSelect s' = None" "phase s' \<noteq> Dragging" "\<not> attached s'"
    unfolding s' using pv v by (simp_all add: emit_def phase_def)
  from 4(5) have 5: "\<forall>ev. step opts p (PointerDown ev) s' = Returns s' \<and>
               step opts p (PointerMove ev) s' = Returns s' \<and>
               step opts p (PointerUp ev) s' = Returns s' \<and>
               step opts p (PointerLeave ev) s' = Returns s' \<and>
               step opts p (PointerCancel ev) s' = Returns s'"
    by simp
  have 6: "ReleaseRequested (pointerId dn) \<in> set (emitted s s') \<and>
      (releaseGranted p (pointerId dn) \<longrightarrow> pointerId dn \<notin> captured s')"
    if g: "es = PointerDown dn # map PointerMove mvs \<and>
      captureGranted p (pointerId dn) \<and> supportsHasPointerCapture p" for dn mvs
  proof -
    from g d have "isDragActive (run opts p (PointerDown dn # map PointerMove mvs) s0)"
      unfolding assms(3) by (simp only:)
    from single_gesture_owner [OF assms(2) this] g
    have o: "pointerIdentifier s = Some (pointerId dn)" and k: "pointerId dn \<in> captured s"
      unfolding assms(3) by (simp_all only:)
    from g k have h: "hasPointerCapture p (pointerId dn) s"
      by (simp add: hasPointerCapture_def)
    from o h show ?thesis
      unfolding 2 using 3 by simp
  qed
  have 7: "\<forall>j. ReleaseRequested j \<in> set (emitted s s') \<longrightarrow> pointerIdentifier s = Some j"
    unfolding 2 by (simp split: option.split)
  from 1 2 3 4 5 6 7 show ?thesis
    by blast
qed

theorem detach_while_dragging_cleans_up_witness:
  "phase (mounted ''auto'' [''panel''] 40) = Idle \<and>
   phase (run detailsOptions fullPlatform
      [PointerDown (pointerAt ''mouse'' 0 1 100), PointerMove (pointerAt ''mouse'' 0 1 90)]
      (mounted ''auto'' [''panel''] 40)) = Dragging \<and>
   userSelect (run detailsOptions fullPlatform
      [PointerDown (pointerAt ''mouse'' 0 1 100), PointerMove (pointerAt ''mouse'' 0 1 90)]
      (mounted ''auto'' [''panel''] 40)) = ''none'' \<and>
   classList (run detailsOptions fullPlatform
      [PointerDown (pointerAt ''mouse'' 0 1 100), PointerMove (pointerAt ''mouse'' 0 1 90)]
      (mounted ''auto'' [''panel''] 40)) = [''panel'', ''drag-scroll-active''] \<and>
   userSelect (run detailsOptions fullPlatform
      [PointerDown (pointerAt ''mouse'' 0 1 100), PointerMove (pointerAt ''mouse'' 0 1 90), Detach]
      (mounted ''auto'' [''panel''] 40)) = ''auto'' \<and>
   activeClass detailsOptions \<notin> set (classList (run detailsOptions fullPlatform
      [PointerDown (pointerAt ''mouse'' 0 1 100), PointerMove (pointerAt ''mouse'' 0 1 90), Detach]
      (mounted ''auto'' [''panel''] 40))) \<and>
   1 \<notin> captured (run detailsOptions fullPlatform
      [PointerDown (pointerAt ''mouse'' 0 1 100), PointerMove (pointerAt ''mouse'' 0 1 90), Detach]
      (mounted ''auto'' [''panel''] 40)) \<and>
   \<not> attached (run detailsOptions fullPlatform
      [PointerDown (pointerAt ''mouse'' 0 1 100), PointerMove (pointerAt ''mouse'' 0 1 90), Detach]
      (mounted ''auto'' [''panel''] 40))"
proof -
  let ?m = "mounted ''auto'' [''panel''] 40"
  let ?es = "[PointerDown (pointerAt ''mouse'' 0 1 100), PointerMove (pointerAt ''mouse'' 0 1 90)]"
  let ?s = "run detailsOptions fullPlatform ?es ?m"
  let ?s' = "after (step detailsOptions fullPlatform Detach ?s)"
  have c: "consistent ''auto'' ?m"
    by (rule consistent_mounted)
  have i: "phase ?m = Idle" and u0: "userSelect ?m = ''auto''"
    by (simp_all add: phase_def mounted_def)
  have f: "phase ?s = Dragging" "userSelect ?s = ''none''"
    "classList ?s = [''panel'', ''drag-scroll-active'']"
    "pointerIdentifier ?s = Some 1 \<and> hasPointerCapture fullPlatform 1 ?s \<and>
       releaseGranted fullPlatform 1"
    by (simp_all add: phase_def releaseGranted_def handler_defs host_defs fixture_defs)
  have r: "run detailsOptions fullPlatform
      [PointerDown (pointerAt ''mouse'' 0 1 100), PointerMove (pointerAt ''mouse'' 0 1 90), Detach]
      ?m = ?s'"
    by simp
  note t = detach_while_dragging_cleans_up [OF c i refl f(1) refl]
  from t u0 have 1: "userSelect ?s' = ''auto''"
    by (simp only:)
  from t have 2: "activeClass detailsOptions \<notin> set (classList ?s')" and 3: "\<not> attached ?s'"
    by blast+
  from t f(4) have 4: "1 \<notin> captured ?s'"
    by blast
  from i f(1,2,3) 1 2 3 4 show ?thesis
    unfolding r by blast
qed

end
